theory Spec2Isabelle
  imports
    Main
    "HOL-Library.Word"
    "HOL-Library.FSet"
    "HOL-Library.Finite_Map"
    "HOL-Library.Log_Nat"
begin

section \<open>The block synchronisation manager of the SPV client\<close>

text \<open>
  A shallow embedding of the Go package \<open>sync\<close> (type \<open>SyncManager\<close>): the handlers that the
  \<open>blockHandler\<close> goroutine runs, one at a time, on the messages of its channel. Every Go map
  with \<open>struct{}\<close> values is a finite set, \<open>peerStates\<close> is a finite map, the \<open>uint32\<close>
  counters are 32-bit words, and the calls on collaborators (peers, chain) are recorded in a
  trace. The chain backend and the constants of imported packages are parameters.
\<close>

subsection \<open>Data\<close>

type_synonym Uint256 = "256 word"

text \<open>A \<open>*peer.Peer\<close>: the handlers only compare these pointers and call methods on them.\<close>

type_synonym peer = nat

datatype InvType = InvTypeTx | InvTypeBlock | InvTypeFilteredBlock | InvTypeOther nat

record InvVect =
  Type :: InvType
  Hash :: Uint256

datatype message = GetData "InvVect list" | FilterLoad

text \<open>What the manager does to its collaborators, in the order it does it.\<close>

datatype effect =
    Disconnect peer
  | PushGetBlocksMsg peer "Uint256 list" Uint256
  | QueueMessage peer message
  | UpdateHeight peer nat
  | ChainCommitBlock Uint256
  | ChainCommitTx Uint256

datatype error = OrphanBlockError | OtherError

record peerSyncState =
  syncCandidate :: bool
  requestQueue :: "InvVect list"
  requestedTxns :: "Uint256 fset"
  requestedBlocks :: "Uint256 fset"
  receivedBlocks :: "32 word"
  badBlocks :: "32 word"
  receivedTxs :: "32 word"
  falsePositives :: "32 word"

text \<open>
  The fields of \<open>SyncManager\<close> that the block handler owns (the two in-flight sets carry the
  prefix \<open>sm_\<close>, since the peer state has fields of the same names), the \<open>shutdown\<close> flag, and
  the part of the world the handlers read and write: the chain backend's state, what
  \<open>peer.Height()\<close> and \<open>peer.Services()\<close> return, the goroutines that \<open>updateBloomFilter\<close> has
  left waiting, and the trace of effects.
\<close>

record 'c SyncManager =
  shutdown :: "32 word"
  sm_requestedTxns :: "Uint256 fset"
  sm_requestedBlocks :: "Uint256 fset"
  txMemPool :: "Uint256 fset"
  syncPeer :: "peer option"
  peerStates :: "(peer, peerSyncState) fmap"
  chain :: 'c
  Height :: "peer \<Rightarrow> nat"
  Services :: "peer \<Rightarrow> 64 word"
  filterWaiters :: "peer list"
  trace :: "effect list"

record CommitBlockResult =
  newBlock :: bool
  reorg :: bool
  newHeight :: nat
  fps :: "32 word"
  err :: "error option"

text \<open>
  \<open>Config\<close> with the \<open>Chain\<close> interface it holds, the hash methods of blocks and
  transactions, and the constants of the imported packages \<open>msg\<close> and \<open>p2p\<close>
  (\<open>msg.MaxInvPerMsg\<close>, \<open>p2p.SFNodeNetwork\<close>, \<open>p2p.SFNodeBloom\<close>), none of which is defined in
  the package itself.
\<close>

record ('c, 'b, 't) Config =
  MaxPeers :: int
  MinPeersForSync :: int
  BestHeight :: "'c \<Rightarrow> nat"
  LatestBlockLocator :: "'c \<Rightarrow> Uint256 list"
  HaveBlock :: "'c \<Rightarrow> Uint256 \<Rightarrow> bool"
  CommitBlock :: "'c \<Rightarrow> 'b \<Rightarrow> 'c \<times> CommitBlockResult"
  CommitTx :: "'c \<Rightarrow> 't \<Rightarrow> 'c \<times> bool \<times> error option"
  BlockHash :: "'b \<Rightarrow> Uint256"
  TxHash :: "'t \<Rightarrow> Uint256"
  MaxInvPerMsg :: nat
  SFNodeNetwork :: "64 word"
  SFNodeBloom :: "64 word"

text \<open>
  Go leaves the iteration order of \<open>range\<close> over a map open. The handlers take the order as
  an argument: \<open>pick n m\<close> is the first key that \<open>range m\<close> yields in \<open>limitMap\<close> when \<open>n\<close>
  items are left in the request queue, and \<open>order S\<close> is the order in which the peers \<open>S\<close> of
  \<open>peerStates\<close> are visited. \<open>range_ok\<close> says what Go guarantees of them.
\<close>

record go_range =
  pick :: "nat \<Rightarrow> Uint256 fset \<Rightarrow> Uint256"
  order :: "peer fset \<Rightarrow> peer list"

definition range_ok :: "go_range \<Rightarrow> bool" where
  "range_ok \<rho> \<longleftrightarrow>
     (\<forall>n m. m \<noteq> {||} \<longrightarrow> pick \<rho> n m |\<in>| m) \<and>
     (\<forall>S. distinct (order \<rho> S) \<and> fset_of_list (order \<rho> S) = S)"

subsection \<open>The two rates\<close>

text \<open>
  The \<open>float64\<close> values that the package computes: quotients of two converted \<open>uint32\<close>
  counters, compared with the constant \<open>0.001\<close>. A finite value is the rational it denotes;
  a division rounds its exact quotient to 53 significant bits, ties to even
  (\<open>float64_round\<close>); \<open>x / 0\<close> is \<open>+Inf\<close> for a positive \<open>x\<close> and \<open>0 / 0\<close> is \<open>NaN\<close>, which
  compares false with everything. Quotients of \<open>uint32\<close> values lie
  between \<open>2\<^sup>-\<^sup>3\<^sup>2\<close> and \<open>2\<^sup>3\<^sup>2\<close>, far from the subnormal and the overflow range, which the
  model leaves out, as it does negative values.
\<close>

datatype float64 = NaN | PosInf | Finite rat

definition round_half_even :: "int \<Rightarrow> int \<Rightarrow> int" where
  "round_half_even P Q =
     (let d = P div Q; r = P mod Q
      in if 2 * r < Q then d else if Q < 2 * r then d + 1
         else if even d then d else d + 1)"

definition float64_round :: "rat \<Rightarrow> rat" where
  "float64_round x =
     (if x \<le> 0 then 0
      else
        let (p, q) = quotient_of x;
            bp = nat (bitlen p); bq = nat (bitlen q);
            P = p * 2 ^ (53 + bq); Q = q * 2 ^ bp
        in if P < 2 ^ 53 * Q
           then of_int (round_half_even P Q) * 2 ^ bp / 2 ^ (53 + bq)
           else of_int (round_half_even P (2 * Q)) * 2 ^ (bp + 1) / 2 ^ (53 + bq))"

definition float64_of_uint32 :: "32 word \<Rightarrow> float64" where
  "float64_of_uint32 w = Finite (of_nat (unat w))"

fun float64_div :: "float64 \<Rightarrow> float64 \<Rightarrow> float64" where
  "float64_div (Finite a) (Finite b) =
     (if b = 0 then (if a = 0 then NaN else PosInf) else Finite (float64_round (a / b)))"
| "float64_div (Finite a) PosInf = Finite 0"
| "float64_div PosInf (Finite b) = PosInf"
| "float64_div PosInf PosInf = NaN"
| "float64_div NaN _ = NaN"
| "float64_div (Finite a) NaN = NaN"
| "float64_div PosInf NaN = NaN"

fun float64_gt :: "float64 \<Rightarrow> float64 \<Rightarrow> bool" where
  "float64_gt (Finite a) (Finite b) = (b < a)"
| "float64_gt PosInf (Finite b) = True"
| "float64_gt _ _ = False"

definition maxBadBlockRate :: float64 where
  "maxBadBlockRate = Finite (float64_round (1 / 1000))"

definition maxFalsePositiveRate :: float64 where
  "maxFalsePositiveRate = Finite (float64_round (1 / 1000))"

definition maxRequestedBlocks :: "('c, 'b, 't) Config \<Rightarrow> nat" where
  "maxRequestedBlocks cfg = MaxInvPerMsg cfg"

definition maxRequestedTxns :: "('c, 'b, 't) Config \<Rightarrow> nat" where
  "maxRequestedTxns cfg = MaxInvPerMsg cfg"

definition zeroHash :: Uint256 where
  "zeroHash = 0"

definition badBlockRate :: "peerSyncState \<Rightarrow> float64" where
  "badBlockRate s = float64_div (float64_of_uint32 (badBlocks s)) (float64_of_uint32 (receivedBlocks s))"

definition falsePosRate :: "peerSyncState \<Rightarrow> float64" where
  "falsePosRate s = float64_div (float64_of_uint32 (falsePositives s)) (float64_of_uint32 (receivedTxs s))"

subsection \<open>Selecting the sync peer\<close>

definition emit :: "effect \<Rightarrow> 'c SyncManager \<Rightarrow> 'c SyncManager" where
  "emit e sm = sm\<lparr>trace := trace sm @ [e]\<rparr>"

definition current :: "('c, 'b, 't) Config \<Rightarrow> 'c SyncManager \<Rightarrow> bool" where
  "current cfg sm =
     (case syncPeer sm of
        None \<Rightarrow> True
      | Some p \<Rightarrow> if BestHeight cfg (chain sm) < Height sm p then False else True)"

definition syncWith :: "('c, 'b, 't) Config \<Rightarrow> peer \<Rightarrow> 'c SyncManager \<Rightarrow> 'c SyncManager" where
  "syncWith cfg p sm =
     (let sm1 = sm\<lparr>sm_requestedBlocks := {||}\<rparr>;
          locator = LatestBlockLocator cfg (chain sm1);
          sm2 = emit (PushGetBlocksMsg p locator zeroHash) sm1
      in sm2\<lparr>syncPeer := Some p\<rparr>)"

definition isSyncCandidate :: "('c, 'b, 't) Config \<Rightarrow> 'c SyncManager \<Rightarrow> peer \<Rightarrow> bool" where
  "isSyncCandidate cfg sm p =
     (let services = Services sm p
      in and services (SFNodeNetwork cfg) = SFNodeNetwork cfg \<and>
         and services (SFNodeBloom cfg) = SFNodeBloom cfg)"

definition getSyncCandidates :: "go_range \<Rightarrow> 'c SyncManager \<Rightarrow> peer list" where
  "getSyncCandidates \<rho> sm =
     filter (\<lambda>p. case fmlookup (peerStates sm) p of
                   None \<Rightarrow> False
                 | Some state \<Rightarrow> syncCandidate state)
       (order \<rho> (fmdom (peerStates sm)))"

text \<open>One iteration of the loop of \<open>startSync\<close>, on the manager and \<open>bestPeer\<close>.\<close>

definition startSync_visit ::
  "nat \<Rightarrow> peer \<Rightarrow> 'c SyncManager \<times> peer option \<Rightarrow> 'c SyncManager \<times> peer option" where
  "startSync_visit bestHeight p acc =
     (let (sm, bestPeer) = acc
      in case fmlookup (peerStates sm) p of
           None \<Rightarrow> (sm, bestPeer)
         | Some state \<Rightarrow>
             if \<not> syncCandidate state then (sm, bestPeer)
             else if Height sm p < bestHeight
             then (sm\<lparr>peerStates := fmupd p (state\<lparr>syncCandidate := False\<rparr>) (peerStates sm)\<rparr>,
                   bestPeer)
             else (case bestPeer of
                     None \<Rightarrow> (sm, Some p)
                   | Some b \<Rightarrow> if Height sm b < Height sm p then (sm, Some p) else (sm, bestPeer)))"

definition startSync ::
  "('c, 'b, 't) Config \<Rightarrow> go_range \<Rightarrow> 'c SyncManager \<Rightarrow> 'c SyncManager" where
  "startSync cfg \<rho> sm =
     (if int (length (getSyncCandidates \<rho> sm)) < MinPeersForSync cfg then sm
      else if syncPeer sm \<noteq> None then sm
      else
        let bestHeight = BestHeight cfg (chain sm);
            (sm1, bestPeer) =
               fold (startSync_visit bestHeight) (order \<rho> (fmdom (peerStates sm))) (sm, None)
        in case bestPeer of
             Some b \<Rightarrow> syncWith cfg b sm1
           | None \<Rightarrow> sm1)"

subsection \<open>The bloom filter\<close>

text \<open>
  \<open>updateBloomFilter\<close> queues the filter message and leaves a goroutine waiting for the
  peer to take it; \<open>filterLoaded\<close> is that goroutine when the message is done (it resets the
  two counters of the peer, if the peer is still registered) and \<open>filterQuit\<close> is the
  goroutine when the peer quits first. The model runs them between two messages of the
  block handler.
\<close>

definition updateBloomFilter :: "peer \<Rightarrow> 'c SyncManager \<Rightarrow> 'c SyncManager" where
  "updateBloomFilter p sm =
     (let sm1 = emit (QueueMessage p FilterLoad) sm
      in sm1\<lparr>filterWaiters := filterWaiters sm1 @ [p]\<rparr>)"

definition filterLoaded :: "peer \<Rightarrow> 'c SyncManager \<Rightarrow> 'c SyncManager" where
  "filterLoaded p sm =
     (if p \<notin> set (filterWaiters sm) then sm
      else
        let sm1 = sm\<lparr>filterWaiters := remove1 p (filterWaiters sm)\<rparr>
        in case fmlookup (peerStates sm1) p of
             Some state \<Rightarrow>
               sm1\<lparr>peerStates :=
                     fmupd p (state\<lparr>receivedTxs := 0, falsePositives := 0\<rparr>) (peerStates sm1)\<rparr>
           | None \<Rightarrow> sm1)"

definition filterQuit :: "peer \<Rightarrow> 'c SyncManager \<Rightarrow> 'c SyncManager" where
  "filterQuit p sm = sm\<lparr>filterWaiters := remove1 p (filterWaiters sm)\<rparr>"

subsection \<open>Requesting inventory\<close>

definition limitMap :: "Uint256 \<Rightarrow> Uint256 fset \<Rightarrow> nat \<Rightarrow> Uint256 fset" where
  "limitMap first m limit =
     (if limit < fcard m + 1
      then (if m = {||} then m else m |-| {|first|})
      else m)"

text \<open>
  The variables of the loop of \<open>pushGetDataMsg\<close>: the two global sets, the two sets of the
  peer, the message under construction and the counter.
\<close>

record pump =
  g_blocks :: "Uint256 fset"
  g_txns :: "Uint256 fset"
  p_blocks :: "Uint256 fset"
  p_txns :: "Uint256 fset"
  gdmsg :: "InvVect list"
  numRequested :: nat

definition pump_request ::
  "('c, 'b, 't) Config \<Rightarrow> go_range \<Rightarrow> nat \<Rightarrow> InvVect \<Rightarrow> pump \<Rightarrow> pump" where
  "pump_request cfg \<rho> n iv pm =
     (case Type iv of
        InvTypeFilteredBlock \<Rightarrow>
          if Hash iv |\<notin>| g_blocks pm
          then
            let m = finsert (Hash iv) (g_blocks pm)
            in pm\<lparr>g_blocks := limitMap (pick \<rho> n m) m (maxRequestedBlocks cfg),
                  p_blocks := finsert (Hash iv) (p_blocks pm),
                  gdmsg := gdmsg pm @ [iv],
                  numRequested := numRequested pm + 1\<rparr>
          else pm
      | InvTypeTx \<Rightarrow>
          if Hash iv |\<notin>| g_txns pm
          then
            let m = finsert (Hash iv) (g_txns pm)
            in pm\<lparr>g_txns := limitMap (pick \<rho> n m) m (maxRequestedTxns cfg),
                  p_txns := finsert (Hash iv) (p_txns pm),
                  gdmsg := gdmsg pm @ [iv],
                  numRequested := numRequested pm + 1\<rparr>
          else pm
      | _ \<Rightarrow> pm)"

text \<open>
  The loop, with \<open>n\<close> the number of items left in the queue after this one: it returns
  the variables and what is left of the queue.
\<close>

fun pump_loop ::
  "('c, 'b, 't) Config \<Rightarrow> go_range \<Rightarrow> InvVect list \<Rightarrow> pump \<Rightarrow> pump \<times> InvVect list" where
  "pump_loop cfg \<rho> [] pm = (pm, [])"
| "pump_loop cfg \<rho> (iv # rest) pm =
     (let pm1 = pump_request cfg \<rho> (length rest) iv pm
      in if MaxInvPerMsg cfg \<le> numRequested pm1 then (pm1, rest)
         else pump_loop cfg \<rho> rest pm1)"

text \<open>
  \<open>pushGetDataMsg\<close> works on the peer state it is given (a pointer into \<open>peerStates\<close>
  in every call of the package), so the model stores the new peer state under the peer.
  \<open>gdmsg.AddInvVect\<close>, of the imported package \<open>msg\<close>, is taken to append the vector to
  the message's \<open>InvList\<close>.
\<close>

definition pushGetDataMsg ::
  "('c, 'b, 't) Config \<Rightarrow> go_range \<Rightarrow> peer \<Rightarrow> peerSyncState \<Rightarrow> 'c SyncManager \<Rightarrow> 'c SyncManager" where
  "pushGetDataMsg cfg \<rho> p state sm =
     (let (pm, requestQueue') =
            pump_loop cfg \<rho> (requestQueue state)
              \<lparr>g_blocks = sm_requestedBlocks sm, g_txns = sm_requestedTxns sm,
               p_blocks = requestedBlocks state, p_txns = requestedTxns state,
               gdmsg = [], numRequested = 0\<rparr>;
          state1 = state\<lparr>requestQueue := requestQueue',
                         requestedTxns := p_txns pm, requestedBlocks := p_blocks pm\<rparr>;
          sm1 = sm\<lparr>sm_requestedBlocks := g_blocks pm, sm_requestedTxns := g_txns pm,
                   peerStates := fmupd p state1 (peerStates sm)\<rparr>
      in if gdmsg pm \<noteq> [] then emit (QueueMessage p (GetData (gdmsg pm))) sm1 else sm1)"

definition haveInventory :: "('c, 'b, 't) Config \<Rightarrow> 'c SyncManager \<Rightarrow> InvVect \<Rightarrow> bool" where
  "haveInventory cfg sm invVect =
     (case Type invVect of
        InvTypeBlock \<Rightarrow> HaveBlock cfg (chain sm) (Hash invVect)
      | InvTypeFilteredBlock \<Rightarrow> HaveBlock cfg (chain sm) (Hash invVect)
      | InvTypeTx \<Rightarrow> Hash invVect |\<in>| txMemPool sm
      | InvTypeOther _ \<Rightarrow> True)"

text \<open>The loop of \<open>handleInvMsg\<close> over the advertised vectors, on the request queue.\<close>

fun inv_enqueue ::
  "('c, 'b, 't) Config \<Rightarrow> 'c SyncManager \<Rightarrow> InvVect list \<Rightarrow> InvVect list \<Rightarrow> InvVect list" where
  "inv_enqueue cfg sm [] queue = queue"
| "inv_enqueue cfg sm (iv # invVects) queue =
     (case Type iv of
        InvTypeBlock \<Rightarrow>
          (let iv1 = iv\<lparr>Type := InvTypeFilteredBlock\<rparr>
           in inv_enqueue cfg sm invVects
                (if \<not> haveInventory cfg sm iv1 then queue @ [iv1] else queue))
      | InvTypeTx \<Rightarrow>
          inv_enqueue cfg sm invVects
            (if \<not> haveInventory cfg sm iv then queue @ [iv] else queue)
      | _ \<Rightarrow> inv_enqueue cfg sm invVects queue)"

definition handleInvMsg ::
  "('c, 'b, 't) Config \<Rightarrow> go_range \<Rightarrow> peer \<Rightarrow> InvVect list \<Rightarrow> 'c SyncManager \<Rightarrow> 'c SyncManager" where
  "handleInvMsg cfg \<rho> p invVects sm =
     (case fmlookup (peerStates sm) p of
        None \<Rightarrow> sm
      | Some state \<Rightarrow>
          if syncPeer sm \<noteq> Some p \<and> \<not> current cfg sm then sm
          else
            let state1 = state\<lparr>requestQueue := inv_enqueue cfg sm invVects (requestQueue state)\<rparr>
            in pushGetDataMsg cfg \<rho> p state1 sm)"

subsection \<open>Peers coming and going\<close>

definition handleNewPeerMsg ::
  "('c, 'b, 't) Config \<Rightarrow> go_range \<Rightarrow> peer \<Rightarrow> 'c SyncManager \<Rightarrow> 'c SyncManager" where
  "handleNewPeerMsg cfg \<rho> p sm =
     (if shutdown sm \<noteq> 0 then sm
      else
        let candidate = isSyncCandidate cfg sm p;
            sm1 = sm\<lparr>peerStates :=
                       fmupd p \<lparr>syncCandidate = candidate, requestQueue = [],
                                requestedTxns = {||}, requestedBlocks = {||},
                                receivedBlocks = 0, badBlocks = 0,
                                receivedTxs = 0, falsePositives = 0\<rparr> (peerStates sm)\<rparr>
        in if candidate \<and> syncPeer sm1 = None then startSync cfg \<rho> sm1 else sm1)"

text \<open>
  The two loops of \<open>handleDonePeerMsg\<close> delete every hash of the peer from the global
  sets: a set difference.
\<close>

definition handleDonePeerMsg ::
  "('c, 'b, 't) Config \<Rightarrow> go_range \<Rightarrow> peer \<Rightarrow> 'c SyncManager \<Rightarrow> 'c SyncManager" where
  "handleDonePeerMsg cfg \<rho> p sm =
     (case fmlookup (peerStates sm) p of
        None \<Rightarrow> sm
      | Some state \<Rightarrow>
          let sm1 = sm\<lparr>peerStates := fmdrop p (peerStates sm)\<rparr>;
              sm2 = sm1\<lparr>sm_requestedTxns := sm_requestedTxns sm1 |-| requestedTxns state\<rparr>;
              sm3 = sm2\<lparr>sm_requestedBlocks := sm_requestedBlocks sm2 |-| requestedBlocks state\<rparr>
          in if syncPeer sm3 = Some p then startSync cfg \<rho> (sm3\<lparr>syncPeer := None\<rparr>) else sm3)"

subsection \<open>Transactions and blocks\<close>

definition handleTxMsg ::
  "('c, 'b, 't) Config \<Rightarrow> peer \<Rightarrow> 't \<Rightarrow> 'c SyncManager \<Rightarrow> 'c SyncManager" where
  "handleTxMsg cfg p tx sm =
     (case fmlookup (peerStates sm) p of
        None \<Rightarrow> sm
      | Some state \<Rightarrow>
          let txHash = TxHash cfg tx
          in if txHash |\<notin>| requestedTxns state then emit (Disconnect p) sm
             else
               let sm1 = sm\<lparr>txMemPool := finsert txHash (txMemPool sm)\<rparr>;
                   state1 = state\<lparr>requestedTxns := requestedTxns state |-| {|txHash|}\<rparr>;
                   sm2 = sm1\<lparr>sm_requestedTxns := sm_requestedTxns sm1 |-| {|txHash|},
                            peerStates := fmupd p state1 (peerStates sm1)\<rparr>;
                   (c, fp, e) = CommitTx cfg (chain sm2) tx;
                   sm3 = emit (ChainCommitTx txHash) (sm2\<lparr>chain := c\<rparr>)
               in if fp
                  then
                    let state2 = state1\<lparr>falsePositives := falsePositives state1 + 1\<rparr>;
                        sm4 = sm3\<lparr>peerStates := fmupd p state2 (peerStates sm3)\<rparr>
                    in if float64_gt (falsePosRate state2) maxFalsePositiveRate
                       then updateBloomFilter p sm4
                       else sm4
                  else sm3)"

text \<open>
  \<open>handleBlockMsg\<close> after the block has been committed without error: the tail of the
  function from the false positive count on. The comparison of the false positive rate
  that follows the count guards an empty block and is left out. \<open>peer.UpdateHeight\<close> is
  recorded in the trace and is taken to set what \<open>peer.Height()\<close> returns from then on.
\<close>

definition block_committed ::
  "('c, 'b, 't) Config \<Rightarrow> go_range \<Rightarrow> peer \<Rightarrow> peerSyncState \<Rightarrow> CommitBlockResult \<Rightarrow>
   'c SyncManager \<Rightarrow> 'c SyncManager" where
  "block_committed cfg \<rho> p state r sm =
     (let state1 = state\<lparr>falsePositives := falsePositives state + fps r\<rparr>;
          sm1 = sm\<lparr>peerStates := fmupd p state1 (peerStates sm)\<rparr>
      in if \<not> newBlock r then sm1
         else
           let (state2, sm2) =
                 (if reorg r \<and> current cfg sm1
                  then
                    (let st = state1\<lparr>requestQueue := [], requestedBlocks := {||}\<rparr>
                     in (st, sm1\<lparr>peerStates := fmupd p st (peerStates sm1),
                                  sm_requestedBlocks := {||}\<rparr>))
                  else (state1, sm1));
               sm3 = sm2\<lparr>txMemPool := {||}\<rparr>
           in if current cfg sm3
              then (emit (UpdateHeight p (newHeight r)) sm3)\<lparr>Height := (Height sm3)(p := newHeight r)\<rparr>
              else if requestQueue state2 = []
              then emit (PushGetBlocksMsg p (LatestBlockLocator cfg (chain sm3)) zeroHash) sm3
              else pushGetDataMsg cfg \<rho> p state2 sm3)"

definition handleBlockMsg ::
  "('c, 'b, 't) Config \<Rightarrow> go_range \<Rightarrow> peer \<Rightarrow> 'b \<Rightarrow> 'c SyncManager \<Rightarrow> 'c SyncManager" where
  "handleBlockMsg cfg \<rho> p block sm =
     (if syncPeer sm \<noteq> Some p \<and> \<not> current cfg sm then sm
      else
        case fmlookup (peerStates sm) p of
          None \<Rightarrow> emit (Disconnect p) sm
        | Some state \<Rightarrow>
            let blockHash = BlockHash cfg block
            in if blockHash |\<notin>| requestedBlocks state then emit (Disconnect p) sm
               else
                 let state1 = state\<lparr>receivedBlocks := receivedBlocks state + 1,
                                    requestedBlocks := requestedBlocks state |-| {|blockHash|}\<rparr>;
                     sm1 = sm\<lparr>sm_requestedBlocks := sm_requestedBlocks sm |-| {|blockHash|},
                              peerStates := fmupd p state1 (peerStates sm)\<rparr>;
                     (c, r) = CommitBlock cfg (chain sm1) block;
                     sm2 = emit (ChainCommitBlock blockHash) (sm1\<lparr>chain := c\<rparr>)
                 in if err r = Some OrphanBlockError \<and> current cfg sm2
                    then
                      let state2 = state1\<lparr>requestQueue := [], requestedBlocks := {||}\<rparr>
                      in syncWith cfg p
                           (sm2\<lparr>peerStates := fmupd p state2 (peerStates sm2),
                                sm_requestedBlocks := {||}\<rparr>)
                    else if err r = Some OrphanBlockError \<and> \<not> current cfg sm2
                    then
                      let state2 = state1\<lparr>badBlocks := badBlocks state1 + 1\<rparr>;
                          sm3 = sm2\<lparr>peerStates := fmupd p state2 (peerStates sm2)\<rparr>
                      in if float64_gt (badBlockRate state2) maxBadBlockRate
                         then emit (Disconnect p) sm3
                         else sm3
                    else if err r \<noteq> None then sm2
                    else block_committed cfg \<rho> p state1 r sm2)"

subsection \<open>The block handler\<close>

text \<open>
  The messages of \<open>msgChan\<close> and the body of the loop of \<open>blockHandler\<close>: the dispatch on
  the type of the message. The two queries only read the manager and the pause only waits,
  so these three leave the state as it is.
\<close>

datatype ('b, 't) sync_msg =
    NewPeerMsg peer
  | DonePeerMsg peer
  | InvMsg peer "InvVect list"
  | BlockMsg peer 'b
  | TxMsg peer 't
  | GetSyncPeerMsg
  | IsCurrentMsg
  | PauseMsg

fun blockHandler ::
  "('c, 'b, 't) Config \<Rightarrow> go_range \<Rightarrow> ('b, 't) sync_msg \<Rightarrow> 'c SyncManager \<Rightarrow> 'c SyncManager" where
  "blockHandler cfg \<rho> (NewPeerMsg p) sm = handleNewPeerMsg cfg \<rho> p sm"
| "blockHandler cfg \<rho> (DonePeerMsg p) sm = handleDonePeerMsg cfg \<rho> p sm"
| "blockHandler cfg \<rho> (InvMsg p invVects) sm = handleInvMsg cfg \<rho> p invVects sm"
| "blockHandler cfg \<rho> (BlockMsg p block) sm = handleBlockMsg cfg \<rho> p block sm"
| "blockHandler cfg \<rho> (TxMsg p tx) sm = handleTxMsg cfg p tx sm"
| "blockHandler cfg \<rho> GetSyncPeerMsg sm = sm"
| "blockHandler cfg \<rho> IsCurrentMsg sm = sm"
| "blockHandler cfg \<rho> PauseMsg sm = sm"

text \<open>
  What else happens to the state, between two messages: a filter goroutine finishing, a
  peer reporting a new height, the chain backend moving on its own, \<open>Stop\<close> raising the
  shutdown flag.
\<close>

datatype 'c outside =
    FilterLoaded peer
  | FilterQuit peer
  | PeerHeight peer nat
  | ChainMoved 'c
  | Stop

fun outside_step :: "'c outside \<Rightarrow> 'c SyncManager \<Rightarrow> 'c SyncManager" where
  "outside_step (FilterLoaded p) sm = filterLoaded p sm"
| "outside_step (FilterQuit p) sm = filterQuit p sm"
| "outside_step (PeerHeight p h) sm = sm\<lparr>Height := (Height sm)(p := h)\<rparr>"
| "outside_step (ChainMoved c) sm = sm\<lparr>chain := c\<rparr>"
| "outside_step Stop sm = sm\<lparr>shutdown := shutdown sm + 1\<rparr>"

text \<open>\<open>New\<close>: empty maps, no sync peer; the world around it is given.\<close>

definition New :: "'c \<Rightarrow> (peer \<Rightarrow> nat) \<Rightarrow> (peer \<Rightarrow> 64 word) \<Rightarrow> 'c SyncManager" where
  "New c heights services =
     \<lparr>shutdown = 0, sm_requestedTxns = {||}, sm_requestedBlocks = {||}, txMemPool = {||},
      syncPeer = None, peerStates = fmempty, chain = c, Height = heights,
      Services = services, filterWaiters = [], trace = []\<rparr>"

text \<open>
  The states the manager can be in: each message is handled under some iteration order,
  and the world moves in between.
\<close>

inductive reachable :: "('c, 'b, 't) Config \<Rightarrow> 'c SyncManager \<Rightarrow> bool"
  for cfg :: "('c, 'b, 't) Config" where
  init: "reachable cfg (New c heights services)"
| handle: "reachable cfg sm \<Longrightarrow> range_ok \<rho> \<Longrightarrow> reachable cfg (blockHandler cfg \<rho> m sm)"
| outside: "reachable cfg sm \<Longrightarrow> reachable cfg (outside_step ev sm)"

text \<open>A run: the messages in order, each with the iteration order it met.\<close>

fun run ::
  "('c, 'b, 't) Config \<Rightarrow> (go_range \<times> ('b, 't) sync_msg) list \<Rightarrow> 'c SyncManager \<Rightarrow> 'c SyncManager" where
  "run cfg [] sm = sm"
| "run cfg ((\<rho>, m) # ms) sm = run cfg ms (blockHandler cfg \<rho> m sm)"

section \<open>Invariants and auxiliary notions\<close>

subsection \<open>Properties of a manager state\<close>

text \<open>
  The two global sets are within their limits.
\<close>

definition within_limits :: "('c, 'b, 't) Config \<Rightarrow> 'c SyncManager \<Rightarrow> bool" where
  "within_limits cfg sm \<longleftrightarrow>
     fcard (sm_requestedBlocks sm) \<le> maxRequestedBlocks cfg \<and>
     fcard (sm_requestedTxns sm) \<le> maxRequestedTxns cfg"

text \<open>
  The two global sets have room left: each holds fewer hashes than its limit.
\<close>

definition below_limits :: "('c, 'b, 't) Config \<Rightarrow> 'c SyncManager \<Rightarrow> bool" where
  "below_limits cfg sm \<longleftrightarrow>
     fcard (sm_requestedBlocks sm) < maxRequestedBlocks cfg \<and>
     fcard (sm_requestedTxns sm) < maxRequestedTxns cfg"






text \<open>
  No peer has a transaction counted.
\<close>

definition untallied :: "'c SyncManager \<Rightarrow> bool" where
  "untallied sm \<longleftrightarrow> (\<forall>p state. fmlookup (peerStates sm) p = Some state \<longrightarrow> receivedTxs state = 0)"

text \<open>
  The sets of every peer are within the global sets, and no hash is in the sets of
  two peers.
\<close>

definition inclusion :: "'c SyncManager \<Rightarrow> bool" where
  "inclusion sm \<longleftrightarrow>
     (\<forall>p state. fmlookup (peerStates sm) p = Some state \<longrightarrow>
        requestedBlocks state |\<subseteq>| sm_requestedBlocks sm \<and>
        requestedTxns state |\<subseteq>| sm_requestedTxns sm)"

definition exclusive :: "'c SyncManager \<Rightarrow> bool" where
  "exclusive sm \<longleftrightarrow>
     (\<forall>p q sp sq. p \<noteq> q \<longrightarrow> fmlookup (peerStates sm) p = Some sp \<longrightarrow>
        fmlookup (peerStates sm) q = Some sq \<longrightarrow>
        requestedBlocks sp |\<inter>| requestedBlocks sq = {||} \<and>
        requestedTxns sp |\<inter>| requestedTxns sq = {||})"

text \<open>
  \<open>fits sm p state\<close>: the peer state \<open>state\<close> can be stored under \<open>p\<close> without breaking
  the two properties.
\<close>

definition fits :: "'c SyncManager \<Rightarrow> peer \<Rightarrow> peerSyncState \<Rightarrow> bool" where
  "fits sm p state \<longleftrightarrow>
     requestedBlocks state |\<subseteq>| sm_requestedBlocks sm \<and>
     requestedTxns state |\<subseteq>| sm_requestedTxns sm \<and>
     (\<forall>q sq. q \<noteq> p \<longrightarrow> fmlookup (peerStates sm) q = Some sq \<longrightarrow>
        requestedBlocks state |\<inter>| requestedBlocks sq = {||} \<and>
        requestedTxns state |\<inter>| requestedTxns sq = {||})"

definition sound :: "'c SyncManager \<Rightarrow> bool" where
  "sound sm \<longleftrightarrow> inclusion sm \<and> exclusive sm"

text \<open>
  \<open>flags_only ps ps'\<close>: the peer states \<open>ps'\<close> are those of \<open>ps\<close> but for the \<open>syncCandidate\<close>
  flags, which is all that the loop of \<open>startSync\<close> changes.
\<close>

definition flags_only :: "(peer, peerSyncState) fmap \<Rightarrow> (peer, peerSyncState) fmap \<Rightarrow> bool" where
  "flags_only ps ps' \<longleftrightarrow>
     (\<forall>q. (fmlookup ps q = None \<longrightarrow> fmlookup ps' q = None) \<and>
          (\<forall>st. fmlookup ps q = Some st \<longrightarrow>
                (\<exists>c. fmlookup ps' q = Some (st\<lparr>syncCandidate := c\<rparr>))))"

subsection \<open>Stages of a handler\<close>

text \<open>
  \<open>handleBlockMsg\<close> up to the call of the chain: the peer state and the manager once the
  block has been taken out of the request sets and submitted. The same for
  \<open>handleTxMsg\<close>.
\<close>

definition block_taken :: "('c, 'b, 't) Config \<Rightarrow> 'b \<Rightarrow> peerSyncState \<Rightarrow> peerSyncState" where
  "block_taken cfg block state =
     state\<lparr>receivedBlocks := receivedBlocks state + 1,
           requestedBlocks := requestedBlocks state |-| {|BlockHash cfg block|}\<rparr>"

definition block_submitted ::
  "('c, 'b, 't) Config \<Rightarrow> peer \<Rightarrow> 'b \<Rightarrow> peerSyncState \<Rightarrow> 'c SyncManager \<Rightarrow> 'c SyncManager" where
  "block_submitted cfg p block state sm =
     emit (ChainCommitBlock (BlockHash cfg block))
       (sm\<lparr>sm_requestedBlocks := sm_requestedBlocks sm |-| {|BlockHash cfg block|},
           peerStates := fmupd p (block_taken cfg block state) (peerStates sm),
           chain := fst (CommitBlock cfg (chain sm) block)\<rparr>)"

definition tx_taken :: "('c, 'b, 't) Config \<Rightarrow> 't \<Rightarrow> peerSyncState \<Rightarrow> peerSyncState" where
  "tx_taken cfg tx state = state\<lparr>requestedTxns := requestedTxns state |-| {|TxHash cfg tx|}\<rparr>"

definition tx_submitted ::
  "('c, 'b, 't) Config \<Rightarrow> peer \<Rightarrow> 't \<Rightarrow> peerSyncState \<Rightarrow> 'c SyncManager \<Rightarrow> 'c SyncManager" where
  "tx_submitted cfg p tx state sm =
     emit (ChainCommitTx (TxHash cfg tx))
       (sm\<lparr>txMemPool := finsert (TxHash cfg tx) (txMemPool sm),
           sm_requestedTxns := sm_requestedTxns sm |-| {|TxHash cfg tx|},
           peerStates := fmupd p (tx_taken cfg tx state) (peerStates sm),
           chain := fst (CommitTx cfg (chain sm) tx)\<rparr>)"

text \<open>
  The loop of \<open>pushGetDataMsg\<close> when nothing is evicted: the global sets grow, and by
  all that the sets of the peer gain. \<open>room cfg sm n\<close>: the global sets can take \<open>n\<close>
  more hashes without an eviction.
\<close>

definition grows :: "pump \<Rightarrow> pump \<Rightarrow> bool" where
  "grows pm pm' \<longleftrightarrow>
     g_blocks pm |\<subseteq>| g_blocks pm' \<and> g_txns pm |\<subseteq>| g_txns pm' \<and>
     p_blocks pm' |\<subseteq>| p_blocks pm |\<union>| (g_blocks pm' |-| g_blocks pm) \<and>
     p_txns pm' |\<subseteq>| p_txns pm |\<union>| (g_txns pm' |-| g_txns pm)"

definition room :: "('c, 'b, 't) Config \<Rightarrow> 'c SyncManager \<Rightarrow> nat \<Rightarrow> bool" where
  "room cfg sm n \<longleftrightarrow>
     fcard (sm_requestedBlocks sm) + n < maxRequestedBlocks cfg \<and>
     fcard (sm_requestedTxns sm) + n < maxRequestedTxns cfg"

text \<open>
  \<open>calm cfg m sm\<close>: handling the message \<open>m\<close> in \<open>sm\<close> neither lets \<open>limitMap\<close> evict (the global
  sets have room for the whole request queue) nor resets the global set of requested
  blocks (\<open>startSync\<close> is not run, and a block is neither an orphan nor a reorganisation
  while the manager is current).
\<close>

fun calm :: "('c, 'b, 't) Config \<Rightarrow> ('b, 't) sync_msg \<Rightarrow> 'c SyncManager \<Rightarrow> bool" where
  "calm cfg (NewPeerMsg p) sm =
     (shutdown sm \<noteq> 0 \<or> \<not> isSyncCandidate cfg sm p \<or> syncPeer sm \<noteq> None)"
| "calm cfg (DonePeerMsg p) sm = (syncPeer sm \<noteq> Some p)"
| "calm cfg (InvMsg p invVects) sm =
     (case fmlookup (peerStates sm) p of
        None \<Rightarrow> True
      | Some state \<Rightarrow> room cfg sm (length (requestQueue state) + length invVects))"
| "calm cfg (BlockMsg p block) sm =
     (case fmlookup (peerStates sm) p of
        None \<Rightarrow> True
      | Some state \<Rightarrow>
          room cfg sm (length (requestQueue state)) \<and>
          (let r = snd (CommitBlock cfg (chain sm) block)
           in \<not> (current cfg (sm\<lparr>chain := fst (CommitBlock cfg (chain sm) block)\<rparr>) \<and>
                  (err r = Some OrphanBlockError \<or> (err r = None \<and> newBlock r \<and> reorg r)))))"
| "calm cfg _ sm = True"

subsection \<open>A small world\<close>

text \<open>
  A world to run the handlers in: the chain's state is its best height, a block
  carries its hash and what the chain will answer to it, a transaction its hash and
  whether it is a false positive. \<open>demo_range h ps\<close> is an iteration order that yields \<open>h\<close>
  first wherever it can and visits the peers in the order \<open>ps\<close> when \<open>ps\<close> lists them.
  In \<open>demo_world\<close> the chain and all peers are at height 0 and every peer offers both
  services.
\<close>

definition demo_cfg ::
  "int \<Rightarrow> nat \<Rightarrow> (nat, Uint256 \<times> CommitBlockResult, Uint256 \<times> bool) Config" where
  "demo_cfg minPeers maxInv =
     \<lparr>MaxPeers = 8, MinPeersForSync = minPeers,
      BestHeight = (\<lambda>c. c), LatestBlockLocator = (\<lambda>c. []), HaveBlock = (\<lambda>c h. False),
      CommitBlock = (\<lambda>c b. (if err (snd b) = None \<and> newBlock (snd b) then newHeight (snd b) else c, snd b)),
      CommitTx = (\<lambda>c t. (c, snd t, None)),
      BlockHash = fst, TxHash = fst,
      MaxInvPerMsg = maxInv, SFNodeNetwork = 1, SFNodeBloom = 4\<rparr>"

definition demo_range :: "Uint256 \<Rightarrow> peer list \<Rightarrow> go_range" where
  "demo_range h ps =
     \<lparr>pick = (\<lambda>n m. if h |\<in>| m then h else fMin m),
      order = (\<lambda>S. if distinct ps \<and> fset_of_list ps = S then ps else sorted_list_of_fset S)\<rparr>"

definition demo_world :: "nat SyncManager" where
  "demo_world = New 0 (\<lambda>p. 0) (\<lambda>p. 5)"

definition block_vect :: "Uint256 \<Rightarrow> InvVect" where
  "block_vect h = \<lparr>Type = InvTypeBlock, Hash = h\<rparr>"

definition tx_vect :: "Uint256 \<Rightarrow> InvVect" where
  "tx_vect h = \<lparr>Type = InvTypeTx, Hash = h\<rparr>"

definition orphan :: CommitBlockResult where
  "orphan = \<lparr>newBlock = False, reorg = False, newHeight = 0, fps = 0, err = Some OrphanBlockError\<rparr>"

definition fresh_peer :: peerSyncState where
  "fresh_peer =
     \<lparr>syncCandidate = True, requestQueue = [], requestedTxns = {||}, requestedBlocks = {||},
      receivedBlocks = 0, badBlocks = 0, receivedTxs = 0, falsePositives = 0\<rparr>"

text \<open>One peer, two advertisements, under a limit of two hashes.\<close>

definition demo_two_invs ::
  "(go_range \<times> (Uint256 \<times> CommitBlockResult, Uint256 \<times> bool) sync_msg) list" where
  "demo_two_invs =
     [(demo_range 0 [1], NewPeerMsg 1),
      (demo_range 7 [1], InvMsg 1 [block_vect 7, tx_vect 8]),
      (demo_range 7 [1], InvMsg 1 [block_vect 9, block_vect 10])]"


text \<open>
  Peer 1 is asked for transaction 8.
\<close>

definition demo_tx_asked ::
  "(go_range \<times> (Uint256 \<times> CommitBlockResult, Uint256 \<times> bool) sync_msg) list" where
  "demo_tx_asked =
     [(demo_range 0 [1], NewPeerMsg 1),
      (demo_range 0 [1], InvMsg 1 [tx_vect 8])]"

text \<open>
  A manager in the middle of a sync from peer 1, which is at height 100 while the chain is
  at 0: the peer has delivered \<open>n\<close> blocks and block 7 is requested from it.
\<close>

definition demo_syncing :: "32 word \<Rightarrow> nat SyncManager" where
  "demo_syncing n =
     \<lparr>shutdown = 0, sm_requestedTxns = {||}, sm_requestedBlocks = {|7|}, txMemPool = {||},
      syncPeer = Some 1,
      peerStates = fmupd 1 \<lparr>syncCandidate = True, requestQueue = [],
                             requestedTxns = {||}, requestedBlocks = {|7|},
                             receivedBlocks = n, badBlocks = 0,
                             receivedTxs = 0, falsePositives = 0\<rparr> fmempty,
      chain = 0, Height = (\<lambda>p. 100), Services = (\<lambda>p. 5), filterWaiters = [], trace = []\<rparr>"

text \<open>Peer 1, at height 10, is the sync peer of a chain at height 0; peer 2 is registered too.\<close>

definition demo_two_peers ::
  "(go_range \<times> (Uint256 \<times> CommitBlockResult, Uint256 \<times> bool) sync_msg) list" where
  "demo_two_peers =
     [(demo_range 0 [1], NewPeerMsg 1),
      (demo_range 0 [1, 2], NewPeerMsg 2)]"

definition demo_behind :: "nat SyncManager" where
  "demo_behind = run (demo_cfg 1 5) demo_two_peers (New 0 (\<lambda>p. if p = 1 then 10 else 0) (\<lambda>p. 5))"

text \<open>
  The chain is at height 3; peer 1 is at height 5 and peer 2 at height 0. \<open>demo_stale\<close> is
  the manager on entry to \<open>startSync\<close> when peer 1 registers after peer 2.
\<close>

definition demo_heights :: "peer \<Rightarrow> nat" where
  "demo_heights p = (if p = 1 then 5 else 0)"

definition demo_stale :: "nat SyncManager" where
  "demo_stale = (New 3 demo_heights (\<lambda>p. 5))\<lparr>peerStates := fmupd 1 fresh_peer (fmupd 2 fresh_peer fmempty)\<rparr>"

definition demo_stale_events ::
  "(go_range \<times> (Uint256 \<times> CommitBlockResult, Uint256 \<times> bool) sync_msg) list" where
  "demo_stale_events =
     [(demo_range 0 [2], NewPeerMsg 2),
      (demo_range 0 [2, 1], NewPeerMsg 1)]"


text \<open>
  Peer 2 is asked for block 7 while peer 1 is the sync peer; then peer 1 leaves and
  \<open>startSync\<close> picks peer 2.
\<close>

definition demo_resync ::
  "(go_range \<times> (Uint256 \<times> CommitBlockResult, Uint256 \<times> bool) sync_msg) list" where
  "demo_resync =
     [(demo_range 0 [1], NewPeerMsg 1),
      (demo_range 0 [1, 2], NewPeerMsg 2),
      (demo_range 0 [1, 2], InvMsg 2 [block_vect 7]),
      (demo_range 0 [2], DonePeerMsg 1)]"

section \<open>Lemmas about the handlers\<close>

lemma limitMap_le:
  assumes "m \<noteq> {||} \<Longrightarrow> first |\<in>| m" and "fcard m \<le> limit + 1"
  shows "fcard (limitMap first m limit) \<le> limit"
proof (cases "limit < fcard m + 1")
  case True
  show ?thesis
  proof (cases "m = {||}")
    case True
    then show ?thesis by (simp add: limitMap_def fcard_fempty)
  next
    case False
    then have "first |\<in>| m" by (rule assms(1))
    then have "fcard (m |-| {|first|}) < fcard m" by (rule fcard_fminus1_less)
    with assms(2) False \<open>limit < fcard m + 1\<close> show ?thesis by (simp add: limitMap_def)
  qed
next
  case False
  then show ?thesis by (simp add: limitMap_def)
qed

lemma range_ok_pick: "range_ok \<rho> \<Longrightarrow> m \<noteq> {||} \<Longrightarrow> pick \<rho> n m |\<in>| m"
  by (simp add: range_ok_def)

lemma limitMap_insert_le:
  assumes "range_ok \<rho>" and "fcard m \<le> limit"
  shows "fcard (limitMap (pick \<rho> n (finsert h m)) (finsert h m) limit) \<le> limit"
proof (rule limitMap_le)
  show "finsert h m \<noteq> {||} \<Longrightarrow> pick \<rho> n (finsert h m) |\<in>| finsert h m"
    using assms(1) by (rule range_ok_pick)
  show "fcard (finsert h m) \<le> limit + 1"
    using assms(2) by (simp add: fcard_finsert_if)
qed

lemma pump_request_le:
  assumes "range_ok \<rho>"
    and "fcard (g_blocks pm) \<le> maxRequestedBlocks cfg"
    and "fcard (g_txns pm) \<le> maxRequestedTxns cfg"
  shows "fcard (g_blocks (pump_request cfg \<rho> n iv pm)) \<le> maxRequestedBlocks cfg \<and>
         fcard (g_txns (pump_request cfg \<rho> n iv pm)) \<le> maxRequestedTxns cfg"
proof (cases "Type iv")
  case InvTypeTx
  then show ?thesis
    using assms(2,3) limitMap_insert_le [OF assms(1) assms(3)]
    by (simp add: pump_request_def Let_def)
next
  case InvTypeBlock
  then show ?thesis using assms(2,3) by (simp add: pump_request_def)
next
  case InvTypeFilteredBlock
  then show ?thesis
    using assms(2,3) limitMap_insert_le [OF assms(1) assms(2)]
    by (simp add: pump_request_def Let_def)
next
  case (InvTypeOther k)
  then show ?thesis using assms(2,3) by (simp add: pump_request_def)
qed

lemma pump_loop_le:
  assumes "range_ok \<rho>"
    and "fcard (g_blocks pm) \<le> maxRequestedBlocks cfg"
    and "fcard (g_txns pm) \<le> maxRequestedTxns cfg"
  shows "fcard (g_blocks (fst (pump_loop cfg \<rho> q pm))) \<le> maxRequestedBlocks cfg \<and>
         fcard (g_txns (fst (pump_loop cfg \<rho> q pm))) \<le> maxRequestedTxns cfg"
  using assms(2,3)
proof (induction q arbitrary: pm)
  case Nil
  then show ?case by simp
next
  case (Cons iv rest)
  have step: "fcard (g_blocks (pump_request cfg \<rho> (length rest) iv pm)) \<le> maxRequestedBlocks cfg \<and>
         fcard (g_txns (pump_request cfg \<rho> (length rest) iv pm)) \<le> maxRequestedTxns cfg"
    using assms(1) Cons.prems by (rule pump_request_le)
  show ?case
  proof (cases "MaxInvPerMsg cfg \<le> numRequested (pump_request cfg \<rho> (length rest) iv pm)")
    case True
    with step show ?thesis by (simp add: Let_def)
  next
    case False
    with Cons.IH [of "pump_request cfg \<rho> (length rest) iv pm"] step
    show ?thesis by (simp add: Let_def)
  qed
qed

lemma pushGetDataMsg_limits:
  assumes "range_ok \<rho>" and "within_limits cfg sm"
  shows "within_limits cfg (pushGetDataMsg cfg \<rho> p state sm)"
proof -
  let ?pm0 = "\<lparr>g_blocks = sm_requestedBlocks sm, g_txns = sm_requestedTxns sm,
               p_blocks = requestedBlocks state, p_txns = requestedTxns state,
               gdmsg = [], numRequested = 0\<rparr>"
  have "fcard (g_blocks (fst (pump_loop cfg \<rho> (requestQueue state) ?pm0))) \<le> maxRequestedBlocks cfg \<and>
        fcard (g_txns (fst (pump_loop cfg \<rho> (requestQueue state) ?pm0))) \<le> maxRequestedTxns cfg"
    using assms by (intro pump_loop_le) (simp_all add: within_limits_def)
  then show ?thesis
    by (auto simp add: pushGetDataMsg_def within_limits_def emit_def Let_def split: prod.splits)
qed

lemma within_limits_peerStates [simp]:
  "within_limits cfg (sm\<lparr>peerStates := ps\<rparr>) = within_limits cfg sm"
  by (simp add: within_limits_def)

lemma flags_only_refl: "flags_only ps ps"
proof -
  have "\<exists>c. st = st\<lparr>syncCandidate := c\<rparr>" for st :: peerSyncState
    by (rule exI [of _ "syncCandidate st"]) simp
  then show ?thesis by (auto simp: flags_only_def split: option.splits)
qed

lemma flags_only_trans:
  assumes "flags_only a b" and "flags_only b c"
  shows "flags_only a c"
  unfolding flags_only_def
proof (intro allI conjI impI)
  fix q
  assume "fmlookup a q = None"
  with assms(1) have "fmlookup b q = None" by (simp add: flags_only_def)
  with assms(2) show "fmlookup c q = None" by (simp add: flags_only_def)
next
  fix q st
  assume "fmlookup a q = Some st"
  with assms(1) obtain x where "fmlookup b q = Some (st\<lparr>syncCandidate := x\<rparr>)"
    unfolding flags_only_def by blast
  with assms(2) obtain y where "fmlookup c q = Some (st\<lparr>syncCandidate := x, syncCandidate := y\<rparr>)"
    unfolding flags_only_def by blast
  then have "fmlookup c q = Some (st\<lparr>syncCandidate := y\<rparr>)" by simp
  then show "\<exists>c'. fmlookup c q = Some (st\<lparr>syncCandidate := c'\<rparr>)" by (rule exI)
qed

lemma flags_only_upd:
  assumes "fmlookup ps p = Some st"
  shows "flags_only ps (fmupd p (st\<lparr>syncCandidate := c\<rparr>) ps)"
proof -
  have "\<exists>c. st' = st'\<lparr>syncCandidate := c\<rparr>" for st' :: peerSyncState
    by (rule exI [of _ "syncCandidate st'"]) simp
  with assms show ?thesis by (auto simp: flags_only_def split: option.splits)
qed

lemma startSync_visit_shape:
  "\<exists>ps. fst (startSync_visit h p (sm, b)) = sm\<lparr>peerStates := ps\<rparr> \<and> flags_only (peerStates sm) ps"
proof (cases "fmlookup (peerStates sm) p")
  case None
  have "fst (startSync_visit h p (sm, b)) = sm\<lparr>peerStates := peerStates sm\<rparr>"
    using None by (simp add: startSync_visit_def)
  then show ?thesis using flags_only_refl by blast
next
  case (Some st)
  show ?thesis
  proof (cases "syncCandidate st \<and> Height sm p < h")
    case True
    then have "fst (startSync_visit h p (sm, b)) =
                 sm\<lparr>peerStates := fmupd p (st\<lparr>syncCandidate := False\<rparr>) (peerStates sm)\<rparr>"
      using Some by (simp add: startSync_visit_def)
    then show ?thesis using flags_only_upd [OF Some] by blast
  next
    case False
    then have "fst (startSync_visit h p (sm, b)) = sm\<lparr>peerStates := peerStates sm\<rparr>"
      using Some by (auto simp add: startSync_visit_def split: option.splits)
    then show ?thesis using flags_only_refl by blast
  qed
qed

lemma startSync_fold_shape:
  "\<exists>ps. fst (fold (startSync_visit h) qs (sm, b)) = sm\<lparr>peerStates := ps\<rparr> \<and>
        flags_only (peerStates sm) ps"
proof (induction qs arbitrary: sm b)
  case Nil
  have "fst (fold (startSync_visit h) [] (sm, b)) = sm\<lparr>peerStates := peerStates sm\<rparr>" by simp
  then show ?case using flags_only_refl by blast
next
  case (Cons q qs)
  obtain sm1 b1 where v: "startSync_visit h q (sm, b) = (sm1, b1)" by (cases "startSync_visit h q (sm, b)")
  from startSync_visit_shape [of h q sm b] v obtain ps1
    where s1: "sm1 = sm\<lparr>peerStates := ps1\<rparr>" and f1: "flags_only (peerStates sm) ps1" by auto
  from Cons.IH [of sm1 b1] obtain ps2
    where s2: "fst (fold (startSync_visit h) qs (sm1, b1)) = sm1\<lparr>peerStates := ps2\<rparr>"
      and f2: "flags_only (peerStates sm1) ps2" by blast
  have "fst (fold (startSync_visit h) (q # qs) (sm, b)) = sm\<lparr>peerStates := ps2\<rparr>"
    using v s1 s2 by simp
  moreover have "flags_only (peerStates sm) ps2"
    using f1 f2 s1 by (auto intro: flags_only_trans)
  ultimately show ?case by blast
qed

text \<open>What \<open>startSync\<close> can do to the manager.\<close>

lemma startSync_shape:
  "\<exists>ps. flags_only (peerStates sm) ps \<and>
     (startSync cfg \<rho> sm = sm\<lparr>peerStates := ps\<rparr> \<or>
      (\<exists>b. startSync cfg \<rho> sm = syncWith cfg b (sm\<lparr>peerStates := ps\<rparr>)))"
proof (cases "int (length (getSyncCandidates \<rho> sm)) < MinPeersForSync cfg \<or> syncPeer sm \<noteq> None")
  case True
  then have "startSync cfg \<rho> sm = sm\<lparr>peerStates := peerStates sm\<rparr>"
    by (auto simp: startSync_def)
  then show ?thesis using flags_only_refl by blast
next
  case False
  let ?r = "fold (startSync_visit (BestHeight cfg (chain sm))) (order \<rho> (fmdom (peerStates sm))) (sm, None)"
  obtain ps where ps: "fst ?r = sm\<lparr>peerStates := ps\<rparr>" and f: "flags_only (peerStates sm) ps"
    using startSync_fold_shape by blast
  have "startSync cfg \<rho> sm = (case snd ?r of Some b \<Rightarrow> syncWith cfg b (fst ?r) | None \<Rightarrow> fst ?r)"
    using False by (simp add: startSync_def Let_def case_prod_beta)
  with ps have "startSync cfg \<rho> sm = sm\<lparr>peerStates := ps\<rparr> \<or>
      (\<exists>b. startSync cfg \<rho> sm = syncWith cfg b (sm\<lparr>peerStates := ps\<rparr>))"
    by (cases "snd ?r") auto
  with f show ?thesis by blast
qed

lemma syncWith_limits: "within_limits cfg sm \<Longrightarrow> within_limits cfg (syncWith cfg b sm)"
  by (simp add: within_limits_def syncWith_def emit_def Let_def fcard_fempty)

lemma startSync_limits:
  assumes "within_limits cfg sm"
  shows "within_limits cfg (startSync cfg \<rho> sm)"
proof -
  from startSync_shape [of sm cfg \<rho>] obtain ps where
    "startSync cfg \<rho> sm = sm\<lparr>peerStates := ps\<rparr> \<or>
      (\<exists>b. startSync cfg \<rho> sm = syncWith cfg b (sm\<lparr>peerStates := ps\<rparr>))" by blast
  then show ?thesis using assms by (auto simp: syncWith_limits)
qed

lemma fcard_fminus_le: "fcard (A |-| B) \<le> fcard A"
  by (rule fcard_mono) auto

lemma within_limits_shrink:
  assumes "within_limits cfg sm"
    and "sm_requestedBlocks sm' |\<subseteq>| sm_requestedBlocks sm"
    and "sm_requestedTxns sm' |\<subseteq>| sm_requestedTxns sm"
  shows "within_limits cfg sm'"
  using assms fcard_mono [OF assms(2)] fcard_mono [OF assms(3)]
  by (simp add: within_limits_def)

lemma handleNewPeerMsg_limits:
  assumes "within_limits cfg sm"
  shows "within_limits cfg (handleNewPeerMsg cfg \<rho> p sm)"
  using assms by (simp add: handleNewPeerMsg_def Let_def startSync_limits)

lemma handleDonePeerMsg_limits:
  assumes "within_limits cfg sm"
  shows "within_limits cfg (handleDonePeerMsg cfg \<rho> p sm)"
proof (cases "fmlookup (peerStates sm) p")
  case None
  with assms show ?thesis by (simp add: handleDonePeerMsg_def)
next
  case (Some state)
  let ?sm3 = "sm\<lparr>peerStates := fmdrop p (peerStates sm),
                 sm_requestedTxns := sm_requestedTxns sm |-| requestedTxns state,
                 sm_requestedBlocks := sm_requestedBlocks sm |-| requestedBlocks state\<rparr>"
  have l3: "within_limits cfg ?sm3"
    using assms by (rule within_limits_shrink) auto
  then have "within_limits cfg (?sm3\<lparr>syncPeer := None\<rparr>)"
    by (simp add: within_limits_def)
  then have "within_limits cfg (startSync cfg \<rho> (?sm3\<lparr>syncPeer := None\<rparr>))"
    by (rule startSync_limits)
  with l3 Some show ?thesis by (simp add: handleDonePeerMsg_def Let_def)
qed

lemma updateBloomFilter_limits [simp]:
  "within_limits cfg (updateBloomFilter p sm) = within_limits cfg sm"
  by (simp add: updateBloomFilter_def within_limits_def emit_def Let_def)

lemma emit_limits [simp]: "within_limits cfg (emit e sm) = within_limits cfg sm"
  by (simp add: within_limits_def emit_def)

lemma handleTxMsg_limits:
  assumes "within_limits cfg sm"
  shows "within_limits cfg (handleTxMsg cfg p tx sm)"
proof (cases "fmlookup (peerStates sm) p")
  case None
  with assms show ?thesis by (simp add: handleTxMsg_def)
next
  case (Some state)
  have "within_limits cfg (sm\<lparr>sm_requestedTxns := sm_requestedTxns sm |-| {|h|}\<rparr>)" for h
    using assms by (rule within_limits_shrink) auto
  then have *: "within_limits cfg
      (sm\<lparr>txMemPool := mp, sm_requestedTxns := sm_requestedTxns sm |-| {|h|},
           peerStates := ps, chain := c\<rparr>)" for h mp ps c
    by (simp add: within_limits_def)
  show ?thesis
    using Some assms by (simp add: handleTxMsg_def Let_def case_prod_beta *)
qed

lemma handleInvMsg_limits:
  assumes "range_ok \<rho>" and "within_limits cfg sm"
  shows "within_limits cfg (handleInvMsg cfg \<rho> p invVects sm)"
  using assms by (simp add: handleInvMsg_def Let_def pushGetDataMsg_limits split: option.splits)

lemma block_committed_limits:
  assumes "range_ok \<rho>" and "within_limits cfg sm"
  shows "within_limits cfg (block_committed cfg \<rho> p state r sm)"
proof -
  have a: "within_limits cfg (sm\<lparr>peerStates := ps, txMemPool := mp\<rparr>)" for ps mp
    using assms(2) by (simp add: within_limits_def)
  have b: "within_limits cfg (sm\<lparr>peerStates := ps, sm_requestedBlocks := {||}, txMemPool := mp\<rparr>)" for ps mp
    using assms(2) by (simp add: within_limits_def fcard_fempty)
  have c: "within_limits cfg (sm'\<lparr>Height := hs\<rparr>) = within_limits cfg sm'" for sm' :: "'a SyncManager" and hs
    by (simp add: within_limits_def)
  show ?thesis
    using assms(2) a b
    by (simp add: block_committed_def Let_def c pushGetDataMsg_limits [OF assms(1)])
qed

lemma handleBlockMsg_known:
  assumes "fmlookup (peerStates sm) p = Some state"
  shows "handleBlockMsg cfg \<rho> p block sm =
     (let state1 = block_taken cfg block state;
          sm2 = block_submitted cfg p block state sm;
          r = snd (CommitBlock cfg (chain sm) block)
      in if syncPeer sm \<noteq> Some p \<and> \<not> current cfg sm then sm
         else if BlockHash cfg block |\<notin>| requestedBlocks state then emit (Disconnect p) sm
         else if err r = Some OrphanBlockError \<and> current cfg sm2
         then syncWith cfg p
                (sm2\<lparr>peerStates :=
                       fmupd p (state1\<lparr>requestQueue := [], requestedBlocks := {||}\<rparr>) (peerStates sm2),
                     sm_requestedBlocks := {||}\<rparr>)
         else if err r = Some OrphanBlockError
         then (if float64_gt (badBlockRate (state1\<lparr>badBlocks := badBlocks state1 + 1\<rparr>)) maxBadBlockRate
               then emit (Disconnect p)
                      (sm2\<lparr>peerStates :=
                             fmupd p (state1\<lparr>badBlocks := badBlocks state1 + 1\<rparr>) (peerStates sm2)\<rparr>)
               else sm2\<lparr>peerStates :=
                          fmupd p (state1\<lparr>badBlocks := badBlocks state1 + 1\<rparr>) (peerStates sm2)\<rparr>)
         else if err r \<noteq> None then sm2
         else block_committed cfg \<rho> p state1 r sm2)"
  using assms
  by (simp add: handleBlockMsg_def Let_def case_prod_beta block_taken_def block_submitted_def)

lemma block_submitted_limits:
  assumes "within_limits cfg sm"
  shows "within_limits cfg (block_submitted cfg p block state sm)"
  using assms by (rule within_limits_shrink) (auto simp: block_submitted_def emit_def)

lemma handleBlockMsg_limits:
  assumes "range_ok \<rho>" and "within_limits cfg sm"
  shows "within_limits cfg (handleBlockMsg cfg \<rho> p block sm)"
proof (cases "fmlookup (peerStates sm) p")
  case None
  with assms(2) show ?thesis by (simp add: handleBlockMsg_def)
next
  case (Some state)
  let ?sm2 = "block_submitted cfg p block state sm"
  have ok: "within_limits cfg ?sm2"
    using assms(2) by (rule block_submitted_limits)
  have reset: "within_limits cfg (?sm2\<lparr>peerStates := ps, sm_requestedBlocks := {||}\<rparr>)" for ps
    using ok by (rule within_limits_shrink) auto
  show ?thesis
    unfolding handleBlockMsg_known [OF Some] Let_def
    using assms(2) ok
    by (simp add: syncWith_limits [OF reset] block_committed_limits [OF assms(1) ok])
qed

lemma blockHandler_limits:
  assumes "range_ok \<rho>" and "within_limits cfg sm"
  shows "within_limits cfg (blockHandler cfg \<rho> m sm)"
proof (cases m)
  case (NewPeerMsg p)
  with assms show ?thesis by (simp add: handleNewPeerMsg_limits)
next
  case (DonePeerMsg p)
  with assms show ?thesis by (simp add: handleDonePeerMsg_limits)
next
  case (InvMsg p invVects)
  with assms show ?thesis by (simp add: handleInvMsg_limits)
next
  case (BlockMsg p block)
  with assms show ?thesis by (simp add: handleBlockMsg_limits)
next
  case (TxMsg p tx)
  with assms show ?thesis by (simp add: handleTxMsg_limits)
qed (use assms(2) in simp_all)

lemma outside_step_limits:
  assumes "within_limits cfg sm"
  shows "within_limits cfg (outside_step ev sm)"
proof (cases ev)
  case (FilterLoaded p)
  with assms show ?thesis
    by (simp add: filterLoaded_def Let_def within_limits_def split: option.splits)
next
  case (FilterQuit p)
  with assms show ?thesis by (simp add: filterQuit_def within_limits_def)
qed (use assms in \<open>simp_all add: within_limits_def\<close>)

lemma distinct_sorted_list_of_fset: "distinct (sorted_list_of_fset S)"
  by (simp add: sorted_list_of_fset.rep_eq)

lemma demo_range_ok: "range_ok (demo_range h ps)"
  by (simp add: range_ok_def demo_range_def distinct_sorted_list_of_fset)

lemma reachable_run:
  assumes "reachable cfg sm" and "list_all (\<lambda>e. range_ok (fst e)) evs"
  shows "reachable cfg (run cfg evs sm)"
  using assms
proof (induction evs arbitrary: sm)
  case Nil
  then show ?case by simp
next
  case (Cons e evs)
  obtain \<rho> ev where e: "e = (\<rho>, ev)" by (cases e)
  with Cons.prems have "reachable cfg (blockHandler cfg \<rho> ev sm)"
    by (auto intro: reachable.handle)
  with Cons e show ?case by simp
qed

lemma reachable_demo: "reachable cfg demo_world"
  unfolding demo_world_def by (rule reachable.init)

lemmas demo_simps =
  demo_world_def New_def demo_cfg_def demo_range_def block_vect_def tx_vect_def
  handleNewPeerMsg_def handleDonePeerMsg_def handleInvMsg_def handleTxMsg_def
  handleBlockMsg_def block_committed_def
  isSyncCandidate_def startSync_def getSyncCandidates_def startSync_visit_def syncWith_def
  emit_def zeroHash_def Let_def current_def haveInventory_def pushGetDataMsg_def
  pump_request_def limitMap_def maxRequestedBlocks_def maxRequestedTxns_def
  updateBloomFilter_def filterLoaded_def filterQuit_def
  fcard_finsert_if fcard_fempty finsert_fminus_if



















lemma inv_enqueue_eq:
  "inv_enqueue cfg sm invVects q =
     q @ map (\<lambda>iv. if Type iv = InvTypeBlock then iv\<lparr>Type := InvTypeFilteredBlock\<rparr> else iv)
           (filter (\<lambda>iv. (Type iv = InvTypeBlock \<and> \<not> HaveBlock cfg (chain sm) (Hash iv)) \<or>
                         (Type iv = InvTypeTx \<and> Hash iv |\<notin>| txMemPool sm)) invVects)"
proof (induction invVects arbitrary: q)
  case Nil
  show ?case by simp
next
  case (Cons iv invVects)
  show ?case
    by (cases "Type iv") (simp_all add: Cons.IH Let_def haveInventory_def)
qed

lemma round_half_even_near:
  assumes "0 < Q"
  shows "rat_of_int P / rat_of_int Q - 1 \<le> rat_of_int (round_half_even P Q) \<and>
         rat_of_int (round_half_even P Q) \<le> rat_of_int P / rat_of_int Q + 1"
proof -
  let ?d = "P div Q"
  have r: "P mod Q < Q" "0 \<le> P mod Q" using assms by simp_all
  have e: "?d * Q + P mod Q = P" by simp
  from r e have lo: "?d * Q \<le> P" by linarith
  from r e have "P < ?d * Q + Q" by linarith
  then have hi: "P < (?d + 1) * Q" by (simp add: algebra_simps)
  have m: "round_half_even P Q = ?d \<or> round_half_even P Q = ?d + 1"
    by (simp add: round_half_even_def Let_def)
  have q: "0 < rat_of_int Q" using assms by simp
  have "rat_of_int (?d * Q) \<le> rat_of_int P" using lo by (simp only: of_int_le_iff)
  then have a: "rat_of_int ?d \<le> rat_of_int P / rat_of_int Q"
    using q by (simp add: pos_le_divide_eq)
  have "rat_of_int P < rat_of_int ((?d + 1) * Q)" using hi by (simp only: of_int_less_iff)
  then have b: "rat_of_int P / rat_of_int Q < rat_of_int ?d + 1"
    using q by (simp add: pos_divide_less_eq algebra_simps)
  from m a b show ?thesis by auto
qed

lemma scaled_near:
  fixes y c m :: rat
  assumes "2 ^ 52 \<le> y" and "0 < c" and "y - 1 \<le> m" and "m \<le> y + 1"
  shows "y * c * (1 - 1 / 2 ^ 52) \<le> m * c \<and> m * c \<le> y * c * (1 + 1 / 2 ^ 52)"
proof -
  have one: "1 \<le> y / 2 ^ 52" using assms(1) by simp
  have "y * (1 - 1 / 2 ^ 52) \<le> m" using one assms(3) by (simp add: algebra_simps)
  then have lo: "y * (1 - 1 / 2 ^ 52) * c \<le> m * c"
    using assms(2) by (simp add: mult_right_mono)
  have "m \<le> y * (1 + 1 / 2 ^ 52)" using one assms(4) by (simp add: algebra_simps)
  then have hi: "m * c \<le> y * (1 + 1 / 2 ^ 52) * c"
    using assms(2) by (simp add: mult_right_mono)
  from lo hi show ?thesis by (simp add: mult.assoc mult.commute mult.left_commute)
qed

lemma float64_round_near:
  assumes "0 < x"
  shows "x * (1 - 1 / 2 ^ 52) \<le> float64_round x \<and> float64_round x \<le> x * (1 + 1 / 2 ^ 52)"
proof -
  obtain p q where pq: "quotient_of x = (p, q)" by (cases "quotient_of x")
  then have qpos: "0 < q" by (rule quotient_of_denom_pos)
  have xeq: "x = rat_of_int p / rat_of_int q" using pq by (rule quotient_of_div)
  have ppos: "0 < p"
    using assms qpos unfolding xeq by (simp add: zero_less_divide_iff)
  define bp bq where "bp = nat (bitlen p)" and "bq = nat (bitlen q)"
  have "2 ^ nat (bitlen p - 1) \<le> p" using bitlen_bounds [OF ppos] by simp
  moreover have "1 \<le> bitlen p" using ppos by (simp add: bitlen_alt_def)
  ultimately have "2 ^ (bp - 1) \<le> p" and bp1: "1 \<le> bp"
    by (simp_all add: bp_def nat_diff_distrib)
  then have "2 * 2 ^ (bp - 1) \<le> 2 * p" by simp
  moreover have "2 * (2::int) ^ (bp - 1) = 2 ^ bp"
    using bp1 by (cases bp) simp_all
  ultimately have plo: "2 ^ bp \<le> 2 * p" by simp
  have "q < 2 ^ nat (bitlen q)" using bitlen_bounds [OF qpos] by simp
  then have qhi: "q < 2 ^ bq" by (simp add: bq_def)
  define P Q where "P = p * 2 ^ (53 + bq)" and "Q = q * 2 ^ bp"
  have Qpos: "0 < Q" using qpos by (simp add: Q_def)
  have "2 ^ 52 * Q = 2 ^ 52 * q * 2 ^ bp" by (simp add: Q_def)
  also have "\<dots> \<le> 2 ^ 52 * 2 ^ bq * (2 * p)"
    using qhi plo qpos ppos by (intro mult_mono) simp_all
  also have "\<dots> = P" by (simp add: P_def power_add)
  finally have big: "2 ^ 52 * Q \<le> P" .
  define c :: rat where "c = 2 ^ bp / 2 ^ (53 + bq)"
  have cpos: "0 < c" by (simp add: c_def)
  have xc: "x = rat_of_int P / rat_of_int Q * c"
    using ppos qpos by (simp add: xeq P_def Q_def c_def)
  have fr: "float64_round x =
      (if P < 2 ^ 53 * Q then rat_of_int (round_half_even P Q) * c
       else rat_of_int (round_half_even P (2 * Q)) * (2 * c))"
    using assms pq by (simp add: float64_round_def Let_def bp_def bq_def P_def Q_def c_def)
  show ?thesis
  proof (cases "P < 2 ^ 53 * Q")
    case True
    let ?y = "rat_of_int P / rat_of_int Q"
    have "rat_of_int (2 ^ 52 * Q) \<le> rat_of_int P" using big by (simp only: of_int_le_iff)
    then have y: "2 ^ 52 \<le> ?y" using Qpos by (simp add: pos_le_divide_eq)
    from scaled_near [OF y cpos] round_half_even_near [OF Qpos, of P]
    have "?y * c * (1 - 1 / 2 ^ 52) \<le> rat_of_int (round_half_even P Q) * c \<and>
          rat_of_int (round_half_even P Q) * c \<le> ?y * c * (1 + 1 / 2 ^ 52)" by blast
    moreover have "?y * c = x" by (simp only: xc)
    moreover have "float64_round x = rat_of_int (round_half_even P Q) * c"
      using True by (simp only: fr if_True)
    ultimately show ?thesis by (simp only:)
  next
    case False
    let ?y = "rat_of_int P / rat_of_int (2 * Q)"
    have Q2: "0 < 2 * Q" using Qpos by simp
    from False have "2 ^ 52 * (2 * Q) \<le> P" by simp
    then have "rat_of_int (2 ^ 52 * (2 * Q)) \<le> rat_of_int P" by (simp only: of_int_le_iff)
    then have y: "2 ^ 52 \<le> ?y" using Qpos by (simp add: pos_le_divide_eq)
    have c2: "0 < 2 * c" using cpos by simp
    from scaled_near [OF y c2] round_half_even_near [OF Q2, of P]
    have "?y * (2 * c) * (1 - 1 / 2 ^ 52) \<le> rat_of_int (round_half_even P (2 * Q)) * (2 * c) \<and>
          rat_of_int (round_half_even P (2 * Q)) * (2 * c) \<le> ?y * (2 * c) * (1 + 1 / 2 ^ 52)" by blast
    moreover have "?y * (2 * c) = x" using Qpos by (simp add: xc)
    moreover have "float64_round x = rat_of_int (round_half_even P (2 * Q)) * (2 * c)"
      using False by (simp only: fr if_False)
    ultimately show ?thesis by (simp only:)
  qed
qed

lemma above_threshold:
  fixes B :: rat
  assumes "0 < B" and "B < 2 ^ 32"
  shows "1 / 1000 * (1 + 1 / 2 ^ 52) < (B + 1) / (1000 * B) * (1 - 1 / 2 ^ 52)"
proof -
  have "B * (2 ^ 52 + 1) < (B + 1) * (2 ^ 52 - 1)"
    using assms by (simp add: algebra_simps)
  then show ?thesis using assms(1) by (simp add: field_simps)
qed

lemma below_threshold:
  fixes B :: rat
  assumes "0 < B" and "B < 2 ^ 32"
  shows "(B - 1) / (1000 * B) * (1 + 1 / 2 ^ 52) \<le> 1 / 1000 * (1 - 1 / 2 ^ 52)"
proof -
  have "(B - 1) * (2 ^ 52 + 1) \<le> B * (2 ^ 52 - 1)"
    using assms by (simp add: algebra_simps)
  then show ?thesis using assms(1) by (simp add: field_simps)
qed

lemma float64_round_threshold:
  fixes a b :: nat
  assumes "0 < b" and "b < 2 ^ 32"
  shows "float64_round (1 / 1000) < float64_round (rat_of_nat a / rat_of_nat b) \<longleftrightarrow> b < 1000 * a"
proof -
  let ?t = "1 / 1000 :: rat"
  let ?x = "rat_of_nat a / rat_of_nat b"
  let ?B = "rat_of_nat b"
  have Bpos: "0 < ?B" using assms(1) by simp
  have Bhi: "?B < 2 ^ 32" using assms(2) by (metis of_nat_less_iff of_nat_numeral of_nat_power)
  have t: "?t * (1 - 1 / 2 ^ 52) \<le> float64_round ?t \<and> float64_round ?t \<le> ?t * (1 + 1 / 2 ^ 52)"
    by (rule float64_round_near) simp
  then have tpos: "0 < float64_round ?t" by simp
  consider "a = 0" | "b < 1000 * a" | "b = 1000 * a" "0 < a" | "1000 * a < b" "0 < a"
    by linarith
  then show ?thesis
  proof cases
    case 1
    then show ?thesis using tpos by (simp add: float64_round_def)
  next
    case 2
    then have apos: "0 < a" by simp
    then have xpos: "0 < ?x" using assms(1) by simp
    from 2 have "b + 1 \<le> 1000 * a" by simp
    then have "rat_of_nat (b + 1) \<le> rat_of_nat (1000 * a)" by (simp only: of_nat_le_iff)
    then have "(?B + 1) / (1000 * ?B) \<le> rat_of_nat (1000 * a) / (1000 * ?B)"
      using Bpos by (intro divide_right_mono) simp_all
    then have "(?B + 1) / (1000 * ?B) \<le> ?x" by simp
    then have "(?B + 1) / (1000 * ?B) * (1 - 1 / 2 ^ 52) \<le> ?x * (1 - 1 / 2 ^ 52)"
      by (intro mult_right_mono) simp_all
    moreover have "?x * (1 - 1 / 2 ^ 52) \<le> float64_round ?x"
      using float64_round_near [OF xpos] by blast
    moreover note above_threshold [OF Bpos Bhi] t
    ultimately have "float64_round ?t < float64_round ?x" by linarith
    with 2 show ?thesis by simp
  next
    case 3
    then have "?x = ?t" by simp
    with 3 show ?thesis by simp
  next
    case 4
    then have xpos: "0 < ?x" using assms(1) by simp
    from 4 have "1000 * a \<le> b - 1" by simp
    then have "rat_of_nat (1000 * a) \<le> rat_of_nat (b - 1)" by (simp only: of_nat_le_iff)
    then have "rat_of_nat (1000 * a) \<le> ?B - 1" using assms(1) by (simp add: of_nat_diff)
    then have "rat_of_nat (1000 * a) / (1000 * ?B) \<le> (?B - 1) / (1000 * ?B)"
      using Bpos by (intro divide_right_mono) simp_all
    then have "?x \<le> (?B - 1) / (1000 * ?B)" by simp
    then have "?x * (1 + 1 / 2 ^ 52) \<le> (?B - 1) / (1000 * ?B) * (1 + 1 / 2 ^ 52)"
      by (intro mult_right_mono) simp_all
    moreover have "float64_round ?x \<le> ?x * (1 + 1 / 2 ^ 52)"
      using float64_round_near [OF xpos] by blast
    moreover note below_threshold [OF Bpos Bhi] t
    ultimately have "float64_round ?x \<le> float64_round ?t" by linarith
    with 4 show ?thesis by simp
  qed
qed

text \<open>
  The comparison of a rate with \<open>0.001\<close>, in the arithmetic of the counters: the rounding of
  the quotient and of the constant never changes the outcome, since no quotient of two
  \<open>uint32\<close> values other than \<open>0.001\<close> itself lies within \<open>2\<^sup>-\<^sup>4\<^sup>1\<close> of it.
\<close>

lemma rate_exceeds_nat:
  fixes a b :: nat
  assumes "b < 2 ^ 32"
  shows "float64_gt (float64_div (Finite (rat_of_nat a)) (Finite (rat_of_nat b)))
           (Finite (float64_round (1 / 1000))) \<longleftrightarrow> b < 1000 * a"
proof (cases "b = 0")
  case True
  then show ?thesis by simp
next
  case False
  with assms float64_round_threshold [of b a] show ?thesis by simp
qed

lemma rate_exceeds_iff:
  fixes n d :: "32 word"
  shows "float64_gt (float64_div (float64_of_uint32 n) (float64_of_uint32 d))
           (Finite (float64_round (1 / 1000))) \<longleftrightarrow> unat d < 1000 * unat n"
proof -
  have "unat d < 2 ^ 32" using unsigned_less [of d, where 'a = nat] by simp
  then show ?thesis unfolding float64_of_uint32_def by (rule rate_exceeds_nat)
qed

lemma current_frame:
  assumes "syncPeer sm' = syncPeer sm" and "chain sm' = chain sm" and "Height sm' = Height sm"
  shows "current cfg sm' = current cfg sm"
  unfolding current_def assms by (rule refl)

lemma current_block_submitted:
  "current cfg (block_submitted cfg p block state sm) =
   current cfg (sm\<lparr>chain := fst (CommitBlock cfg (chain sm) block)\<rparr>)"
  by (rule current_frame) (simp_all add: block_submitted_def emit_def)

lemma untallied_frame:
  assumes "untallied sm" and "peerStates sm' = peerStates sm"
  shows "untallied sm'"
  using assms by (simp add: untallied_def)

lemma untallied_upd:
  assumes "untallied sm" and "receivedTxs state = 0" and "peerStates sm' = fmupd p state (peerStates sm)"
  shows "untallied sm'"
  using assms by (simp add: untallied_def)

lemma untallied_flags:
  assumes "untallied sm" and "flags_only (peerStates sm) ps"
  shows "untallied (sm\<lparr>peerStates := ps\<rparr>)"
  unfolding untallied_def
proof (intro allI impI)
  fix p state
  assume l: "fmlookup (peerStates (sm\<lparr>peerStates := ps\<rparr>)) p = Some state"
  show "receivedTxs state = 0"
  proof (cases "fmlookup (peerStates sm) p")
    case None
    with assms(2) l show ?thesis by (simp add: flags_only_def)
  next
    case (Some st)
    with assms(2) obtain c where "fmlookup ps p = Some (st\<lparr>syncCandidate := c\<rparr>)"
      unfolding flags_only_def by blast
    with l have "receivedTxs state = receivedTxs st" by auto
    with assms(1) Some show ?thesis by (simp add: untallied_def)
  qed
qed

lemma syncWith_untallied: "untallied sm \<Longrightarrow> untallied (syncWith cfg b sm)"
  by (erule untallied_frame) (simp add: syncWith_def emit_def Let_def)

lemma startSync_untallied:
  assumes "untallied sm"
  shows "untallied (startSync cfg \<rho> sm)"
proof -
  from startSync_shape [of sm cfg \<rho>] obtain ps where f: "flags_only (peerStates sm) ps"
    and s: "startSync cfg \<rho> sm = sm\<lparr>peerStates := ps\<rparr> \<or>
      (\<exists>b. startSync cfg \<rho> sm = syncWith cfg b (sm\<lparr>peerStates := ps\<rparr>))" by blast
  have "untallied (sm\<lparr>peerStates := ps\<rparr>)" using assms f by (rule untallied_flags)
  with s show ?thesis by (auto simp: syncWith_untallied)
qed

lemma pushGetDataMsg_untallied:
  assumes "untallied sm" and "receivedTxs state = 0"
  shows "untallied (pushGetDataMsg cfg \<rho> p state sm)"
  using assms by (simp add: pushGetDataMsg_def untallied_def emit_def Let_def case_prod_beta)

lemma handleNewPeerMsg_untallied:
  assumes "untallied sm"
  shows "untallied (handleNewPeerMsg cfg \<rho> p sm)"
proof -
  have "untallied (sm\<lparr>peerStates := fmupd p \<lparr>syncCandidate = c, requestQueue = [],
                                requestedTxns = {||}, requestedBlocks = {||},
                                receivedBlocks = 0, badBlocks = 0,
                                receivedTxs = 0, falsePositives = 0\<rparr> (peerStates sm)\<rparr>)" for c
    using assms by (simp add: untallied_def)
  with assms show ?thesis by (simp add: handleNewPeerMsg_def Let_def startSync_untallied)
qed

lemma handleDonePeerMsg_untallied:
  assumes "untallied sm"
  shows "untallied (handleDonePeerMsg cfg \<rho> p sm)"
proof (cases "fmlookup (peerStates sm) p")
  case None
  with assms show ?thesis by (simp add: handleDonePeerMsg_def)
next
  case (Some state)
  have "untallied (sm\<lparr>peerStates := fmdrop p (peerStates sm), sm_requestedTxns := a,
                 sm_requestedBlocks := b\<rparr>)" for a b
    using assms by (auto simp add: untallied_def split: if_splits)
  moreover from this have "untallied (sm\<lparr>peerStates := fmdrop p (peerStates sm), sm_requestedTxns := a,
                 sm_requestedBlocks := b, syncPeer := None\<rparr>)" for a b
    by (simp add: untallied_def)
  ultimately show ?thesis using Some by (simp add: handleDonePeerMsg_def Let_def startSync_untallied)
qed

lemma handleTxMsg_untallied:
  assumes "untallied sm"
  shows "untallied (handleTxMsg cfg p tx sm)"
proof (cases "fmlookup (peerStates sm) p")
  case None
  with assms show ?thesis by (simp add: handleTxMsg_def)
next
  case (Some state)
  then have "receivedTxs state = 0" using assms by (simp add: untallied_def)
  with assms Some show ?thesis
    by (simp add: handleTxMsg_def Let_def case_prod_beta untallied_def emit_def updateBloomFilter_def)
qed

lemma handleInvMsg_untallied:
  assumes "untallied sm"
  shows "untallied (handleInvMsg cfg \<rho> p invVects sm)"
proof (cases "fmlookup (peerStates sm) p")
  case None
  with assms show ?thesis by (simp add: handleInvMsg_def)
next
  case (Some state)
  then have "receivedTxs state = 0" using assms by (simp add: untallied_def)
  with assms Some show ?thesis
    by (simp add: handleInvMsg_def Let_def pushGetDataMsg_untallied)
qed

lemma block_committed_untallied:
  assumes "untallied sm" and "receivedTxs state = 0"
  shows "untallied (block_committed cfg \<rho> p state r sm)"
proof -
  let ?st1 = "state\<lparr>falsePositives := falsePositives state + fps r\<rparr>"
  let ?sm1 = "sm\<lparr>peerStates := fmupd p ?st1 (peerStates sm)\<rparr>"
  let ?st = "?st1\<lparr>requestQueue := [], requestedBlocks := {||}\<rparr>"
  have t1: "untallied ?sm1" using assms by (simp add: untallied_def)
  have ta: "untallied (?sm1\<lparr>txMemPool := {||}\<rparr>)"
    using assms by (simp add: untallied_def)
  have tb: "untallied (?sm1\<lparr>peerStates := fmupd p ?st (peerStates ?sm1), sm_requestedBlocks := {||},
                     txMemPool := {||}\<rparr>)"
    using assms by (simp add: untallied_def)
  have up: "untallied ((emit e sm')\<lparr>Height := hs\<rparr>)" if "untallied sm'" for e hs and sm' :: "'a SyncManager"
    using that by (simp add: untallied_def emit_def)
  have em: "untallied (emit e sm')" if "untallied sm'" for e and sm' :: "'a SyncManager"
    using that by (simp add: untallied_def emit_def)
  show ?thesis
    using t1 ta tb assms(2)
    by (simp add: block_committed_def Let_def up em pushGetDataMsg_untallied)
qed

lemma handleBlockMsg_untallied:
  assumes "untallied sm"
  shows "untallied (handleBlockMsg cfg \<rho> p block sm)"
proof (cases "fmlookup (peerStates sm) p")
  case None
  with assms show ?thesis
    by (simp add: handleBlockMsg_def untallied_def emit_def)
next
  case (Some state)
  then have q: "receivedTxs state = 0"
    using assms by (simp add: untallied_def)
  let ?sm2 = "block_submitted cfg p block state sm"
  let ?st1 = "block_taken cfg block state"
  have q1: "receivedTxs ?st1 = 0"
    using q by (simp add: block_taken_def)
  have t2: "untallied ?sm2"
    using assms q by (simp add: untallied_def block_submitted_def block_taken_def emit_def)
  have dis: "untallied (emit (Disconnect p) sm')" if "untallied sm'" for sm' :: "'a SyncManager"
    using that by (simp add: untallied_def emit_def)
  have upd: "untallied (?sm2\<lparr>peerStates := fmupd p st (peerStates ?sm2)\<rparr>)"
    if "receivedTxs st = 0" for st
    using t2 that by (simp add: untallied_def)
  have upd': "untallied (?sm2\<lparr>peerStates := fmupd p st (peerStates ?sm2), sm_requestedBlocks := {||}\<rparr>)"
    if "receivedTxs st = 0" for st
    using t2 that by (simp add: untallied_def)
  show ?thesis
    unfolding handleBlockMsg_known [OF Some] Let_def
    using assms t2 q1
    by (simp add: dis upd upd' syncWith_untallied block_committed_untallied)
qed

lemma blockHandler_untallied:
  assumes "untallied sm"
  shows "untallied (blockHandler cfg \<rho> m sm)"
proof (cases m)
  case (NewPeerMsg p)
  with assms show ?thesis by (simp add: handleNewPeerMsg_untallied)
next
  case (DonePeerMsg p)
  with assms show ?thesis by (simp add: handleDonePeerMsg_untallied)
next
  case (InvMsg p invVects)
  with assms show ?thesis by (simp add: handleInvMsg_untallied)
next
  case (BlockMsg p block)
  with assms show ?thesis by (simp add: handleBlockMsg_untallied)
next
  case (TxMsg p tx)
  with assms show ?thesis by (simp add: handleTxMsg_untallied)
qed (use assms in simp_all)

lemma outside_step_untallied:
  assumes "untallied sm"
  shows "untallied (outside_step ev sm)"
proof (cases ev)
  case (FilterLoaded p)
  with assms show ?thesis
    by (auto simp add: filterLoaded_def Let_def untallied_def split: option.splits)
next
  case (FilterQuit p)
  with assms show ?thesis by (simp add: filterQuit_def untallied_def)
qed (use assms in \<open>simp_all add: untallied_def\<close>)

lemma reachable_untallied: "reachable cfg sm \<Longrightarrow> untallied sm"
proof (induction rule: reachable.induct)
  case (init c heights services)
  show ?case by (simp add: untallied_def New_def)
next
  case (handle sm \<rho> m)
  then show ?case by (simp add: blockHandler_untallied)
next
  case (outside sm ev)
  then show ?case by (simp add: outside_step_untallied)
qed

lemma handleTxMsg_known:
  assumes "fmlookup (peerStates sm) p = Some state"
  shows "handleTxMsg cfg p tx sm =
     (let state1 = tx_taken cfg tx state;
          sm3 = tx_submitted cfg p tx state sm;
          state2 = state1\<lparr>falsePositives := falsePositives state1 + 1\<rparr>;
          sm4 = sm3\<lparr>peerStates := fmupd p state2 (peerStates sm3)\<rparr>
      in if TxHash cfg tx |\<notin>| requestedTxns state then emit (Disconnect p) sm
         else if fst (snd (CommitTx cfg (chain sm) tx))
         then (if float64_gt (falsePosRate state2) maxFalsePositiveRate
               then updateBloomFilter p sm4 else sm4)
         else sm3)"
  using assms
  by (simp add: handleTxMsg_def Let_def case_prod_beta tx_taken_def tx_submitted_def)

lemma rate_over_zero:
  "float64_div (float64_of_uint32 n) (float64_of_uint32 0) = (if n = 0 then NaN else PosInf)"
proof -
  have a: "(rat_of_nat (unat n) = 0) = (n = 0)" by (simp only: of_nat_eq_0_iff unat_eq_0)
  have b: "rat_of_nat (unat (0::32 word)) = 0" by simp
  show ?thesis by (simp only: float64_of_uint32_def float64_div.simps a b refl if_True)
qed

lemma demo_tx_asked_run:
  "run (demo_cfg 1 5) demo_tx_asked demo_world =
      \<lparr>shutdown = 0, sm_requestedTxns = {|8|}, sm_requestedBlocks = {||},
         txMemPool = {||}, syncPeer = Some 1,
         peerStates =
           fmupd 1
            \<lparr>syncCandidate = True, requestQueue = [], requestedTxns = {|8|},
               requestedBlocks = {||}, receivedBlocks = 0, badBlocks = 0,
               receivedTxs = 0, falsePositives = 0\<rparr>
            fmempty,
         chain = 0, Height = \<lambda>p. 0, Services = \<lambda>p. 5, filterWaiters = [],
         trace =
           [PushGetBlocksMsg 1 [] 0,
            QueueMessage 1 (GetData [\<lparr>Type = InvTypeTx, Hash = 8\<rparr>])]\<rparr>"
  by (simp add: demo_tx_asked_def demo_simps)

lemma demo_behind_eq:
  "demo_behind =
      \<lparr>shutdown = 0, sm_requestedTxns = {||}, sm_requestedBlocks = {||},
         txMemPool = {||}, syncPeer = Some 1,
         peerStates =
           fmupd 2
            \<lparr>syncCandidate = True, requestQueue = [], requestedTxns = {||},
               requestedBlocks = {||}, receivedBlocks = 0, badBlocks = 0,
               receivedTxs = 0, falsePositives = 0\<rparr>
            (fmupd 1
              \<lparr>syncCandidate = True, requestQueue = [],
                 requestedTxns = {||}, requestedBlocks = {||},
                 receivedBlocks = 0, badBlocks = 0, receivedTxs = 0,
                 falsePositives = 0\<rparr>
              fmempty),
         chain = 0, Height = \<lambda>p. if p = 1 then 10 else 0,
         Services = \<lambda>p. 5, filterWaiters = [],
         trace = [PushGetBlocksMsg 1 [] 0]\<rparr>"
  by (simp add: demo_behind_def demo_two_peers_def demo_simps)

lemma sound_frame:
  assumes "sound sm" and "peerStates sm' = peerStates sm"
    and "sm_requestedBlocks sm' = sm_requestedBlocks sm"
    and "sm_requestedTxns sm' = sm_requestedTxns sm"
  shows "sound sm'"
  using assms by (simp add: sound_def inclusion_def exclusive_def)

lemma fits_frame:
  assumes "fits sm p state" and "peerStates sm' = peerStates sm"
    and "sm_requestedBlocks sm' = sm_requestedBlocks sm"
    and "sm_requestedTxns sm' = sm_requestedTxns sm"
    and "requestedBlocks state' = requestedBlocks state"
    and "requestedTxns state' = requestedTxns state"
  shows "fits sm' p state'"
  using assms by (simp add: fits_def)

lemma exclusiveD:
  assumes "exclusive sm" and "p \<noteq> q"
    and "fmlookup (peerStates sm) p = Some sp" and "fmlookup (peerStates sm) q = Some sq"
  shows "requestedBlocks sp |\<inter>| requestedBlocks sq = {||} \<and>
         requestedTxns sp |\<inter>| requestedTxns sq = {||}"
  using assms(1) [unfolded exclusive_def, rule_format, OF assms(2) assms(3) assms(4)] .

lemma inclusionD:
  assumes "inclusion sm" and "fmlookup (peerStates sm) p = Some state"
  shows "requestedBlocks state |\<subseteq>| sm_requestedBlocks sm \<and>
         requestedTxns state |\<subseteq>| sm_requestedTxns sm"
  using assms(1) [unfolded inclusion_def, rule_format, OF assms(2)] .

lemma fitsD:
  assumes "fits sm p state" and "q \<noteq> p" and "fmlookup (peerStates sm) q = Some sq"
  shows "requestedBlocks state |\<inter>| requestedBlocks sq = {||} \<and>
         requestedTxns state |\<inter>| requestedTxns sq = {||}"
  using assms(1) [unfolded fits_def, THEN conjunct2, THEN conjunct2, rule_format, OF assms(2) assms(3)] .

lemma sound_lookup:
  assumes "sound sm" and "fmlookup (peerStates sm) p = Some state"
  shows "fits sm p state"
  unfolding fits_def
proof (intro conjI allI impI)
  from assms have "inclusion sm" by (simp add: sound_def)
  from inclusionD [OF this assms(2)]
  show "requestedBlocks state |\<subseteq>| sm_requestedBlocks sm"
    and "requestedTxns state |\<subseteq>| sm_requestedTxns sm"
    by simp_all
next
  fix q sq
  assume q: "q \<noteq> p" "fmlookup (peerStates sm) q = Some sq"
  from assms(1) have "exclusive sm" by (simp add: sound_def)
  from exclusiveD [OF this _ assms(2) q(2)] q(1)
  show "requestedBlocks state |\<inter>| requestedBlocks sq = {||}"
    and "requestedTxns state |\<inter>| requestedTxns sq = {||}"
    by simp_all
qed

lemma sound_store:
  assumes "sound sm" and "fits sm p state"
  shows "sound (sm\<lparr>peerStates := fmupd p state (peerStates sm)\<rparr>)"
proof -
  from assms(1) have inc0: "inclusion sm" and ex: "exclusive sm" by (simp_all add: sound_def)
  have "requestedBlocks a |\<subseteq>| sm_requestedBlocks sm \<and> requestedTxns a |\<subseteq>| sm_requestedTxns sm"
    if a: "fmlookup (fmupd p state (peerStates sm)) x = Some a" for x a
  proof (cases "x = p")
    case True
    with a have "a = state" by simp
    with assms(2) show ?thesis by (simp add: fits_def)
  next
    case False
    with a have "fmlookup (peerStates sm) x = Some a" by simp
    with inc0 show ?thesis by (rule inclusionD)
  qed
  then have inc: "inclusion (sm\<lparr>peerStates := fmupd p state (peerStates sm)\<rparr>)"
    unfolding inclusion_def by simp
  have "requestedBlocks a |\<inter>| requestedBlocks b = {||} \<and> requestedTxns a |\<inter>| requestedTxns b = {||}"
    if ne: "x \<noteq> y" and a: "fmlookup (fmupd p state (peerStates sm)) x = Some a"
      and b: "fmlookup (fmupd p state (peerStates sm)) y = Some b" for x y a b
  proof -
    consider "x = p" "y \<noteq> p" | "y = p" "x \<noteq> p" | "x \<noteq> p" "y \<noteq> p"
      using ne by blast
    then show ?thesis
    proof cases
      case 1
      with a b have "a = state" "fmlookup (peerStates sm) y = Some b" by simp_all
      with fitsD [OF assms(2) 1(2)] show ?thesis by simp
    next
      case 2
      with a b have "b = state" "fmlookup (peerStates sm) x = Some a" by simp_all
      with fitsD [OF assms(2) 2(2)] show ?thesis by (simp add: finter_commute)
    next
      case 3
      with a b have "fmlookup (peerStates sm) x = Some a" "fmlookup (peerStates sm) y = Some b"
        by simp_all
      with ex ne show ?thesis by (rule exclusiveD)
    qed
  qed
  then have "exclusive (sm\<lparr>peerStates := fmupd p state (peerStates sm)\<rparr>)"
    unfolding exclusive_def by simp
  with inc show ?thesis by (simp add: sound_def)
qed

lemma sound_flags:
  assumes "sound sm" and "flags_only (peerStates sm) ps"
  shows "sound (sm\<lparr>peerStates := ps\<rparr>)"
proof -
  have orig: "\<exists>st0. fmlookup (peerStates sm) q = Some st0 \<and>
           requestedBlocks st = requestedBlocks st0 \<and> requestedTxns st = requestedTxns st0"
    if "fmlookup ps q = Some st" for q st
  proof (cases "fmlookup (peerStates sm) q")
    case None
    with assms(2) that show ?thesis by (simp add: flags_only_def)
  next
    case (Some st0)
    with assms(2) obtain c where "fmlookup ps q = Some (st0\<lparr>syncCandidate := c\<rparr>)"
      unfolding flags_only_def by blast
    with that have "st = st0\<lparr>syncCandidate := c\<rparr>" by simp
    with Some show ?thesis by simp
  qed
  from assms(1) have inc: "inclusion sm" and ex: "exclusive sm" by (simp_all add: sound_def)
  have "inclusion (sm\<lparr>peerStates := ps\<rparr>)"
    unfolding inclusion_def
  proof (intro allI impI)
    fix p state
    assume "fmlookup (peerStates (sm\<lparr>peerStates := ps\<rparr>)) p = Some state"
    then have "fmlookup ps p = Some state" by simp
    from orig [OF this] obtain st0 where l: "fmlookup (peerStates sm) p = Some st0"
      and e: "requestedBlocks state = requestedBlocks st0" "requestedTxns state = requestedTxns st0"
      by blast
    from inclusionD [OF inc l] e
    show "requestedBlocks state |\<subseteq>| sm_requestedBlocks (sm\<lparr>peerStates := ps\<rparr>) \<and>
        requestedTxns state |\<subseteq>| sm_requestedTxns (sm\<lparr>peerStates := ps\<rparr>)"
      by simp
  qed
  moreover have "exclusive (sm\<lparr>peerStates := ps\<rparr>)"
    unfolding exclusive_def
  proof (intro allI impI)
    fix p q sp sq
    assume pq: "p \<noteq> q"
      and "fmlookup (peerStates (sm\<lparr>peerStates := ps\<rparr>)) p = Some sp"
      and "fmlookup (peerStates (sm\<lparr>peerStates := ps\<rparr>)) q = Some sq"
    then have lp: "fmlookup ps p = Some sp" and lq: "fmlookup ps q = Some sq" by simp_all
    from orig [OF lp] obtain sp0 where p0: "fmlookup (peerStates sm) p = Some sp0"
      and ep: "requestedBlocks sp = requestedBlocks sp0" "requestedTxns sp = requestedTxns sp0"
      by blast
    from orig [OF lq] obtain sq0 where q0: "fmlookup (peerStates sm) q = Some sq0"
      and eq: "requestedBlocks sq = requestedBlocks sq0" "requestedTxns sq = requestedTxns sq0"
      by blast
    from exclusiveD [OF ex pq p0 q0] ep eq
    show "requestedBlocks sp |\<inter>| requestedBlocks sq = {||} \<and>
        requestedTxns sp |\<inter>| requestedTxns sq = {||}"
      by simp
  qed
  ultimately show ?thesis by (simp add: sound_def)
qed

lemma grows_refl: "grows pm pm"
  by (simp add: grows_def)

lemma grows_trans:
  assumes "grows a b" and "grows b c"
  shows "grows a c"
proof -
  have s: "P |\<subseteq>| Q |\<union>| (C |-| A)"
    if "A |\<subseteq>| B" "B |\<subseteq>| C" "R |\<subseteq>| Q |\<union>| (B |-| A)" "P |\<subseteq>| R |\<union>| (C |-| B)"
    for A B C P Q R :: "Uint256 fset"
    using that by auto
  from assms show ?thesis
    unfolding grows_def
    by (intro conjI) (blast intro: s order_trans)+
qed

lemma limitMap_idle: "fcard m < limit \<Longrightarrow> limitMap first m limit = m"
  by (simp add: limitMap_def)

lemma pump_request_grows:
  assumes "fcard (g_blocks pm) + 1 < maxRequestedBlocks cfg"
    and "fcard (g_txns pm) + 1 < maxRequestedTxns cfg"
  shows "grows pm (pump_request cfg \<rho> n iv pm) \<and>
         fcard (g_blocks (pump_request cfg \<rho> n iv pm)) \<le> fcard (g_blocks pm) + 1 \<and>
         fcard (g_txns (pump_request cfg \<rho> n iv pm)) \<le> fcard (g_txns pm) + 1"
proof (cases "Type iv")
  case InvTypeTx
  show ?thesis
  proof (cases "Hash iv |\<in>| g_txns pm")
    case True
    with InvTypeTx show ?thesis by (simp add: pump_request_def grows_refl)
  next
    case False
    then have "fcard (finsert (Hash iv) (g_txns pm)) < maxRequestedTxns cfg"
      using assms(2) by (simp add: fcard_finsert_if)
    then have "limitMap (pick \<rho> n (finsert (Hash iv) (g_txns pm))) (finsert (Hash iv) (g_txns pm))
        (maxRequestedTxns cfg) = finsert (Hash iv) (g_txns pm)"
      by (rule limitMap_idle)
    with InvTypeTx False show ?thesis
      by (auto simp add: pump_request_def Let_def grows_def fcard_finsert_if)
  qed
next
  case InvTypeBlock
  then show ?thesis by (simp add: pump_request_def grows_refl)
next
  case InvTypeFilteredBlock
  show ?thesis
  proof (cases "Hash iv |\<in>| g_blocks pm")
    case True
    with InvTypeFilteredBlock show ?thesis by (simp add: pump_request_def grows_refl)
  next
    case False
    then have "fcard (finsert (Hash iv) (g_blocks pm)) < maxRequestedBlocks cfg"
      using assms(1) by (simp add: fcard_finsert_if)
    then have "limitMap (pick \<rho> n (finsert (Hash iv) (g_blocks pm))) (finsert (Hash iv) (g_blocks pm))
        (maxRequestedBlocks cfg) = finsert (Hash iv) (g_blocks pm)"
      by (rule limitMap_idle)
    with InvTypeFilteredBlock False show ?thesis
      by (auto simp add: pump_request_def Let_def grows_def fcard_finsert_if)
  qed
next
  case (InvTypeOther k)
  then show ?thesis by (simp add: pump_request_def grows_refl)
qed

lemma pump_loop_grows:
  assumes "fcard (g_blocks pm) + length q < maxRequestedBlocks cfg"
    and "fcard (g_txns pm) + length q < maxRequestedTxns cfg"
  shows "grows pm (fst (pump_loop cfg \<rho> q pm))"
  using assms
proof (induction q arbitrary: pm)
  case Nil
  show ?case by (simp add: grows_refl)
next
  case (Cons iv rest)
  let ?pm1 = "pump_request cfg \<rho> (length rest) iv pm"
  from Cons.prems have "fcard (g_blocks pm) + 1 < maxRequestedBlocks cfg"
    and "fcard (g_txns pm) + 1 < maxRequestedTxns cfg" by simp_all
  from pump_request_grows [OF this, of \<rho> "length rest" iv]
  have g1: "grows pm ?pm1"
    and b1: "fcard (g_blocks ?pm1) \<le> fcard (g_blocks pm) + 1"
    and t1: "fcard (g_txns ?pm1) \<le> fcard (g_txns pm) + 1" by simp_all
  show ?case
  proof (cases "MaxInvPerMsg cfg \<le> numRequested ?pm1")
    case True
    with g1 show ?thesis by (simp add: Let_def)
  next
    case False
    have "grows ?pm1 (fst (pump_loop cfg \<rho> rest ?pm1))"
      using Cons.prems b1 t1 by (intro Cons.IH) simp_all
    with g1 have "grows pm (fst (pump_loop cfg \<rho> rest ?pm1))" by (rule grows_trans)
    with False show ?thesis by (simp add: Let_def)
  qed
qed

lemma pushGetDataMsg_sound:
  assumes "sound sm" and "fits sm p state" and "room cfg sm (length (requestQueue state))"
  shows "sound (pushGetDataMsg cfg \<rho> p state sm)"
proof -
  let ?init = "\<lparr>g_blocks = sm_requestedBlocks sm, g_txns = sm_requestedTxns sm,
               p_blocks = requestedBlocks state, p_txns = requestedTxns state,
               gdmsg = [], numRequested = 0\<rparr>"
  let ?r = "pump_loop cfg \<rho> (requestQueue state) ?init"
  let ?pm = "fst ?r"
  let ?st = "state\<lparr>requestQueue := snd ?r, requestedTxns := p_txns ?pm, requestedBlocks := p_blocks ?pm\<rparr>"
  let ?smg = "sm\<lparr>sm_requestedBlocks := g_blocks ?pm, sm_requestedTxns := g_txns ?pm\<rparr>"
  have "grows ?init ?pm"
    using assms(3) by (intro pump_loop_grows) (simp_all add: room_def)
  then have gb: "sm_requestedBlocks sm |\<subseteq>| g_blocks ?pm"
    and gt: "sm_requestedTxns sm |\<subseteq>| g_txns ?pm"
    and pb: "p_blocks ?pm |\<subseteq>| requestedBlocks state |\<union>| (g_blocks ?pm |-| sm_requestedBlocks sm)"
    and pt: "p_txns ?pm |\<subseteq>| requestedTxns state |\<union>| (g_txns ?pm |-| sm_requestedTxns sm)"
    by (simp_all add: grows_def)
  from assms(1) have inc: "inclusion sm" and ex: "exclusive sm" by (simp_all add: sound_def)
  have "inclusion ?smg"
    unfolding inclusion_def
  proof (intro allI impI)
    fix q sq
    assume "fmlookup (peerStates ?smg) q = Some sq"
    then have "fmlookup (peerStates sm) q = Some sq" by simp
    from inclusionD [OF inc this] gb gt
    show "requestedBlocks sq |\<subseteq>| sm_requestedBlocks ?smg \<and>
          requestedTxns sq |\<subseteq>| sm_requestedTxns ?smg" by auto
  qed
  moreover have "exclusive ?smg" using ex by (simp add: exclusive_def)
  ultimately have sg: "sound ?smg" by (simp add: sound_def)
  have fg: "fits ?smg p ?st"
    unfolding fits_def
  proof (intro conjI allI impI)
    from assms(2) have "requestedBlocks state |\<subseteq>| sm_requestedBlocks sm"
      and "requestedTxns state |\<subseteq>| sm_requestedTxns sm" by (simp_all add: fits_def)
    with gb gt pb pt show "requestedBlocks ?st |\<subseteq>| sm_requestedBlocks ?smg"
      and "requestedTxns ?st |\<subseteq>| sm_requestedTxns ?smg" by auto
  next
    fix q sq
    assume q: "q \<noteq> p" "fmlookup (peerStates ?smg) q = Some sq"
    then have l: "fmlookup (peerStates sm) q = Some sq" by simp
    from inclusionD [OF inc l] fitsD [OF assms(2) q(1) l] pb pt
    show "requestedBlocks ?st |\<inter>| requestedBlocks sq = {||}"
      and "requestedTxns ?st |\<inter>| requestedTxns sq = {||}" by auto
  qed
  have "sound (?smg\<lparr>peerStates := fmupd p ?st (peerStates ?smg)\<rparr>)"
    using sg fg by (rule sound_store)
  then show ?thesis
    by (rule sound_frame) (simp_all add: pushGetDataMsg_def emit_def Let_def case_prod_beta)
qed

lemma room_less: "room cfg sm n \<Longrightarrow> m \<le> n \<Longrightarrow> room cfg sm m"
  by (simp add: room_def)

lemma room_shrink:
  assumes "room cfg sm n"
    and "sm_requestedBlocks sm' |\<subseteq>| sm_requestedBlocks sm"
    and "sm_requestedTxns sm' |\<subseteq>| sm_requestedTxns sm"
  shows "room cfg sm' n"
  using assms fcard_mono [OF assms(2)] fcard_mono [OF assms(3)] by (simp add: room_def)

lemma sound_touch:
  assumes "sound sm" and "fmlookup (peerStates sm) p = Some state"
    and "requestedBlocks state' = requestedBlocks state"
    and "requestedTxns state' = requestedTxns state"
  shows "sound (sm\<lparr>peerStates := fmupd p state' (peerStates sm)\<rparr>)"
proof -
  from assms(1,2) have "fits sm p state" by (rule sound_lookup)
  then have "fits sm p state'" using assms(3,4) by (simp add: fits_def)
  with assms(1) show ?thesis by (rule sound_store)
qed

text \<open>Taking hashes that the peer holds out of the peer's sets and of the global sets.\<close>

lemma sound_taken:
  assumes "sound sm" and "fmlookup (peerStates sm) p = Some state"
    and "B |\<subseteq>| requestedBlocks state" and "T |\<subseteq>| requestedTxns state"
    and "requestedBlocks state' = requestedBlocks state |-| B"
    and "requestedTxns state' = requestedTxns state |-| T"
  shows "sound (sm\<lparr>sm_requestedBlocks := sm_requestedBlocks sm |-| B,
                   sm_requestedTxns := sm_requestedTxns sm |-| T,
                   peerStates := fmupd p state' (peerStates sm)\<rparr>)"
proof -
  let ?smg = "sm\<lparr>sm_requestedBlocks := sm_requestedBlocks sm |-| B,
                 sm_requestedTxns := sm_requestedTxns sm |-| T\<rparr>"
  from assms(1) have inc: "inclusion sm" and ex: "exclusive sm" by (simp_all add: sound_def)
  have f: "fits sm p state" using assms(1,2) by (rule sound_lookup)
  have "requestedBlocks sq |\<subseteq>| sm_requestedBlocks sm |-| B \<and>
        requestedTxns sq |\<subseteq>| sm_requestedTxns sm |-| T"
    if l: "fmlookup (peerStates sm) q = Some sq" and q: "q \<noteq> p" for q sq
    using inclusionD [OF inc l] fitsD [OF f q l] assms(3,4) by auto
  then have other: "requestedBlocks sq |\<subseteq>| sm_requestedBlocks ?smg \<and>
        requestedTxns sq |\<subseteq>| sm_requestedTxns ?smg"
    if "fmlookup (peerStates sm) q = Some sq" and "q \<noteq> p" for q sq
    using that by simp
  have fg: "fits ?smg p state'"
    unfolding fits_def
  proof (intro conjI allI impI)
    from inclusionD [OF inc assms(2)] assms(5,6)
    show "requestedBlocks state' |\<subseteq>| sm_requestedBlocks ?smg"
      and "requestedTxns state' |\<subseteq>| sm_requestedTxns ?smg" by auto
  next
    fix q sq
    assume q: "q \<noteq> p" "fmlookup (peerStates ?smg) q = Some sq"
    then have l: "fmlookup (peerStates sm) q = Some sq" by simp
    from fitsD [OF f q(1) l] assms(5,6)
    show "requestedBlocks state' |\<inter>| requestedBlocks sq = {||}"
      and "requestedTxns state' |\<inter>| requestedTxns sq = {||}" by auto
  qed
  have "requestedBlocks sq |\<subseteq>| sm_requestedBlocks ?smg \<and> requestedTxns sq |\<subseteq>| sm_requestedTxns ?smg"
    if l: "fmlookup (fmupd p state' (peerStates sm)) q = Some sq" for q sq
  proof (cases "q = p")
    case True
    with l have "sq = state'" by simp
    with fg show ?thesis by (simp add: fits_def)
  next
    case False
    with l have "fmlookup (peerStates sm) q = Some sq" by simp
    then show ?thesis using False by (rule other)
  qed
  then have i2: "inclusion (?smg\<lparr>peerStates := fmupd p state' (peerStates sm)\<rparr>)"
    unfolding inclusion_def by simp
  have "requestedBlocks a |\<inter>| requestedBlocks b = {||} \<and> requestedTxns a |\<inter>| requestedTxns b = {||}"
    if ne: "x \<noteq> y" and a: "fmlookup (fmupd p state' (peerStates sm)) x = Some a"
      and b: "fmlookup (fmupd p state' (peerStates sm)) y = Some b" for x y a b
  proof -
    consider "x = p" "y \<noteq> p" | "y = p" "x \<noteq> p" | "x \<noteq> p" "y \<noteq> p"
      using ne by blast
    then show ?thesis
    proof cases
      case 1
      with a b have "a = state'" and l: "fmlookup (peerStates ?smg) y = Some b" by simp_all
      with fitsD [OF fg 1(2) l] show ?thesis by simp
    next
      case 2
      with a b have "b = state'" and l: "fmlookup (peerStates ?smg) x = Some a" by simp_all
      with fitsD [OF fg 2(2) l] show ?thesis by (simp add: finter_commute)
    next
      case 3
      with a b have "fmlookup (peerStates sm) x = Some a" "fmlookup (peerStates sm) y = Some b"
        by simp_all
      with ex ne show ?thesis by (rule exclusiveD)
    qed
  qed
  then have e2: "exclusive (?smg\<lparr>peerStates := fmupd p state' (peerStates sm)\<rparr>)"
    unfolding exclusive_def by simp
  from i2 e2 show ?thesis by (simp add: sound_def)
qed

lemma sound_dropped:
  assumes "sound sm" and "fmlookup (peerStates sm) p = Some state"
  shows "sound (sm\<lparr>peerStates := fmdrop p (peerStates sm),
                   sm_requestedTxns := sm_requestedTxns sm |-| requestedTxns state,
                   sm_requestedBlocks := sm_requestedBlocks sm |-| requestedBlocks state\<rparr>)"
proof -
  let ?sm' = "sm\<lparr>peerStates := fmdrop p (peerStates sm),
                   sm_requestedTxns := sm_requestedTxns sm |-| requestedTxns state,
                   sm_requestedBlocks := sm_requestedBlocks sm |-| requestedBlocks state\<rparr>"
  from assms(1) have inc: "inclusion sm" and ex: "exclusive sm" by (simp_all add: sound_def)
  have f: "fits sm p state" using assms by (rule sound_lookup)
  have "inclusion ?sm'"
    unfolding inclusion_def
  proof (intro allI impI)
    fix q sq
    assume "fmlookup (peerStates ?sm') q = Some sq"
    then have q: "q \<noteq> p" and l: "fmlookup (peerStates sm) q = Some sq"
      by (auto split: if_splits)
    from inclusionD [OF inc l] fitsD [OF f q l]
    show "requestedBlocks sq |\<subseteq>| sm_requestedBlocks ?sm' \<and>
          requestedTxns sq |\<subseteq>| sm_requestedTxns ?sm'" by auto
  qed
  moreover have "exclusive ?sm'"
    unfolding exclusive_def
  proof (intro allI impI)
    fix x y a b
    assume ne: "x \<noteq> y" and "fmlookup (peerStates ?sm') x = Some a"
      and "fmlookup (peerStates ?sm') y = Some b"
    then have "fmlookup (peerStates sm) x = Some a" "fmlookup (peerStates sm) y = Some b"
      by (auto split: if_splits)
    with ex ne show "requestedBlocks a |\<inter>| requestedBlocks b = {||} \<and>
        requestedTxns a |\<inter>| requestedTxns b = {||}" by (rule exclusiveD)
  qed
  ultimately show ?thesis by (simp add: sound_def)
qed

lemma length_inv_enqueue:
  "length (inv_enqueue cfg sm invVects q) \<le> length q + length invVects"
  by (simp add: inv_enqueue_eq)

lemma handleInvMsg_sound:
  assumes "sound sm" and "calm cfg (InvMsg p invVects) sm"
  shows "sound (handleInvMsg cfg \<rho> p invVects sm)"
proof (cases "fmlookup (peerStates sm) p")
  case None
  with assms(1) show ?thesis by (simp add: handleInvMsg_def)
next
  case (Some state)
  let ?st = "state\<lparr>requestQueue := inv_enqueue cfg sm invVects (requestQueue state)\<rparr>"
  from assms(1) Some have "fits sm p state" by (rule sound_lookup)
  then have f: "fits sm p ?st" by (simp add: fits_def)
  from assms(2) Some have "room cfg sm (length (requestQueue state) + length invVects)" by simp
  then have "room cfg sm (length (requestQueue ?st))"
    by (rule room_less) (simp add: length_inv_enqueue)
  with assms(1) f have "sound (pushGetDataMsg cfg \<rho> p ?st sm)" by (rule pushGetDataMsg_sound)
  with assms(1) Some show ?thesis by (simp add: handleInvMsg_def Let_def)
qed

lemma handleNewPeerMsg_sound:
  assumes "sound sm" and "calm cfg (NewPeerMsg p) sm"
  shows "sound (handleNewPeerMsg cfg \<rho> p sm)"
proof -
  let ?st = "\<lambda>c. \<lparr>syncCandidate = c, requestQueue = [],
                 requestedTxns = {||}, requestedBlocks = {||},
                 receivedBlocks = 0, badBlocks = 0, receivedTxs = 0, falsePositives = 0\<rparr>"
  have "fits sm p (?st c)" for c by (simp add: fits_def)
  with assms(1) have "sound (sm\<lparr>peerStates := fmupd p (?st c) (peerStates sm)\<rparr>)" for c
    by (rule sound_store)
  with assms show ?thesis by (auto simp add: handleNewPeerMsg_def Let_def)
qed

lemma handleDonePeerMsg_sound:
  assumes "sound sm" and "calm cfg (DonePeerMsg p) sm"
  shows "sound (handleDonePeerMsg cfg \<rho> p sm)"
proof (cases "fmlookup (peerStates sm) p")
  case None
  with assms(1) show ?thesis by (simp add: handleDonePeerMsg_def)
next
  case (Some state)
  from assms(1) Some have "sound (sm\<lparr>peerStates := fmdrop p (peerStates sm),
                   sm_requestedTxns := sm_requestedTxns sm |-| requestedTxns state,
                   sm_requestedBlocks := sm_requestedBlocks sm |-| requestedBlocks state\<rparr>)"
    by (rule sound_dropped)
  with assms(2) Some show ?thesis by (simp add: handleDonePeerMsg_def Let_def)
qed

lemma tx_submitted_sound:
  assumes "sound sm" and "fmlookup (peerStates sm) p = Some state"
    and "TxHash cfg tx |\<in>| requestedTxns state"
  shows "sound (tx_submitted cfg p tx state sm)"
proof -
  have "sound (sm\<lparr>sm_requestedBlocks := sm_requestedBlocks sm |-| {||},
                   sm_requestedTxns := sm_requestedTxns sm |-| {|TxHash cfg tx|},
                   peerStates := fmupd p (tx_taken cfg tx state) (peerStates sm)\<rparr>)"
    using assms by (intro sound_taken) (simp_all add: tx_taken_def)
  then show ?thesis
    by (rule sound_frame) (simp_all add: tx_submitted_def emit_def)
qed

lemma handleTxMsg_sound:
  assumes "sound sm"
  shows "sound (handleTxMsg cfg p tx sm)"
proof (cases "fmlookup (peerStates sm) p")
  case None
  with assms show ?thesis by (simp add: handleTxMsg_def)
next
  case (Some state)
  let ?sm3 = "tx_submitted cfg p tx state sm"
  let ?st1 = "tx_taken cfg tx state"
  let ?st2 = "?st1\<lparr>falsePositives := falsePositives ?st1 + 1\<rparr>"
  show ?thesis
  proof (cases "TxHash cfg tx |\<in>| requestedTxns state")
    case False
    have "sound (emit (Disconnect p) sm)"
      using assms by (rule sound_frame) (simp_all add: emit_def)
    with False show ?thesis
      unfolding handleTxMsg_known [OF Some] Let_def by simp
  next
    case True
    with assms Some have s3: "sound ?sm3" by (rule tx_submitted_sound)
    have l3: "fmlookup (peerStates ?sm3) p = Some ?st1"
      by (simp add: tx_submitted_def emit_def)
    have s4: "sound (?sm3\<lparr>peerStates := fmupd p ?st2 (peerStates ?sm3)\<rparr>)"
      using s3 l3 by (rule sound_touch) simp_all
    then have "sound (updateBloomFilter p (?sm3\<lparr>peerStates := fmupd p ?st2 (peerStates ?sm3)\<rparr>))"
      by (rule sound_frame) (simp_all add: updateBloomFilter_def emit_def Let_def)
    with s3 s4 True show ?thesis
      unfolding handleTxMsg_known [OF Some] Let_def by simp
  qed
qed

lemma block_submitted_sound:
  assumes "sound sm" and "fmlookup (peerStates sm) p = Some state"
    and "BlockHash cfg block |\<in>| requestedBlocks state"
  shows "sound (block_submitted cfg p block state sm)"
proof -
  have "sound (sm\<lparr>sm_requestedBlocks := sm_requestedBlocks sm |-| {|BlockHash cfg block|},
                   sm_requestedTxns := sm_requestedTxns sm |-| {||},
                   peerStates := fmupd p (block_taken cfg block state) (peerStates sm)\<rparr>)"
    using assms by (intro sound_taken) (simp_all add: block_taken_def)
  then show ?thesis
    by (rule sound_frame) (simp_all add: block_submitted_def emit_def)
qed

lemma block_committed_sound:
  assumes "sound sm" and "fmlookup (peerStates sm) p = Some state"
    and "room cfg sm (length (requestQueue state))"
    and "\<not> (newBlock r \<and> reorg r \<and> current cfg sm)"
  shows "sound (block_committed cfg \<rho> p state r sm)"
proof -
  let ?st1 = "state\<lparr>falsePositives := falsePositives state + fps r\<rparr>"
  let ?sm1 = "sm\<lparr>peerStates := fmupd p ?st1 (peerStates sm)\<rparr>"
  let ?sm3 = "?sm1\<lparr>txMemPool := {||}\<rparr>"
  have s1: "sound ?sm1" using assms(1,2) by (rule sound_touch) simp_all
  have c1: "current cfg ?sm1 = current cfg sm" by (rule current_frame) simp_all
  have s3: "sound ?sm3" using s1 by (rule sound_frame) simp_all
  have l3: "fmlookup (peerStates ?sm3) p = Some ?st1" by simp
  have f3: "fits ?sm3 p ?st1" using s3 l3 by (rule sound_lookup)
  have r3: "room cfg ?sm3 (length (requestQueue ?st1))"
    using assms(3) by (simp add: room_def)
  have pump: "sound (pushGetDataMsg cfg \<rho> p ?st1 ?sm3)"
    using s3 f3 r3 by (rule pushGetDataMsg_sound)
  have up: "sound ((emit e ?sm3)\<lparr>Height := hs\<rparr>)" for e hs
    using s3 by (rule sound_frame) (simp_all add: emit_def)
  have em: "sound (emit e ?sm3)" for e
    using s3 by (rule sound_frame) (simp_all add: emit_def)
  show ?thesis
  proof (cases "newBlock r")
    case False
    with s1 show ?thesis by (simp add: block_committed_def Let_def)
  next
    case True
    with assms(4) c1 have nr: "(reorg r \<and> current cfg ?sm1) = False" by simp
    from True up em pump show ?thesis
      by (simp add: block_committed_def Let_def nr)
  qed
qed

lemma handleBlockMsg_sound:
  assumes "sound sm" and "calm cfg (BlockMsg p block) sm"
  shows "sound (handleBlockMsg cfg \<rho> p block sm)"
proof (cases "fmlookup (peerStates sm) p")
  case None
  have "sound (emit (Disconnect p) sm)"
    using assms(1) by (rule sound_frame) (simp_all add: emit_def)
  with None assms(1) show ?thesis by (simp add: handleBlockMsg_def)
next
  case (Some state)
  let ?sm2 = "block_submitted cfg p block state sm"
  let ?st1 = "block_taken cfg block state"
  let ?r = "snd (CommitBlock cfg (chain sm) block)"
  let ?st2 = "?st1\<lparr>badBlocks := badBlocks ?st1 + 1\<rparr>"
  from assms(2) Some have room: "room cfg sm (length (requestQueue state))"
    and quiet: "\<not> (current cfg (sm\<lparr>chain := fst (CommitBlock cfg (chain sm) block)\<rparr>) \<and>
                  (err ?r = Some OrphanBlockError \<or> (err ?r = None \<and> newBlock ?r \<and> reorg ?r)))"
    by (simp_all add: Let_def)
  have c2: "current cfg ?sm2 = current cfg (sm\<lparr>chain := fst (CommitBlock cfg (chain sm) block)\<rparr>)"
    by (rule current_block_submitted)
  show ?thesis
  proof (cases "BlockHash cfg block |\<in>| requestedBlocks state")
    case False
    have "sound (emit (Disconnect p) sm)"
      using assms(1) by (rule sound_frame) (simp_all add: emit_def)
    with False assms(1) show ?thesis
      unfolding handleBlockMsg_known [OF Some] Let_def by simp
  next
    case True
    with assms(1) Some have s2: "sound ?sm2" by (rule block_submitted_sound)
    have l2: "fmlookup (peerStates ?sm2) p = Some ?st1"
      by (simp add: block_submitted_def emit_def)
    have bad: "sound (?sm2\<lparr>peerStates := fmupd p ?st2 (peerStates ?sm2)\<rparr>)"
      using s2 l2 by (rule sound_touch) simp_all
    then have bad': "sound (emit (Disconnect p) (?sm2\<lparr>peerStates := fmupd p ?st2 (peerStates ?sm2)\<rparr>))"
      by (rule sound_frame) (simp_all add: emit_def)
    have r2: "room cfg ?sm2 (length (requestQueue ?st1))"
    proof -
      have "room cfg ?sm2 (length (requestQueue state))"
        using room by (rule room_shrink) (auto simp: block_submitted_def emit_def)
      then show ?thesis by (simp add: block_taken_def)
    qed
    have com: "sound (block_committed cfg \<rho> p ?st1 ?r ?sm2)" if "err ?r = None"
      using s2 l2 r2
    proof (rule block_committed_sound)
      from quiet that c2 show "\<not> (newBlock ?r \<and> reorg ?r \<and> current cfg ?sm2)" by auto
    qed
    from quiet c2 have no: "\<not> (err ?r = Some OrphanBlockError \<and> current cfg ?sm2)" by auto
    show ?thesis
      unfolding handleBlockMsg_known [OF Some] Let_def
      using assms(1) True s2 bad bad' com no by auto
  qed
qed

lemma blockHandler_sound:
  assumes "sound sm" and "calm cfg m sm"
  shows "sound (blockHandler cfg \<rho> m sm)"
proof (cases m)
  case (NewPeerMsg p)
  with assms show ?thesis by (simp add: handleNewPeerMsg_sound)
next
  case (DonePeerMsg p)
  with assms show ?thesis by (simp add: handleDonePeerMsg_sound)
next
  case (InvMsg p invVects)
  with assms show ?thesis by (simp add: handleInvMsg_sound)
next
  case (BlockMsg p block)
  with assms show ?thesis by (simp add: handleBlockMsg_sound)
next
  case (TxMsg p tx)
  with assms show ?thesis by (simp add: handleTxMsg_sound)
qed (use assms(1) in simp_all)

lemma outside_step_sound:
  assumes "sound sm"
  shows "sound (outside_step ev sm)"
proof (cases ev)
  case (FilterLoaded p)
  show ?thesis
  proof (cases "p \<in> set (filterWaiters sm)")
    case False
    with assms FilterLoaded show ?thesis by (simp add: filterLoaded_def)
  next
    case True
    let ?sm1 = "sm\<lparr>filterWaiters := remove1 p (filterWaiters sm)\<rparr>"
    have s1: "sound ?sm1" using assms by (rule sound_frame) simp_all
    show ?thesis
    proof (cases "fmlookup (peerStates sm) p")
      case None
      with s1 True FilterLoaded show ?thesis by (simp add: filterLoaded_def Let_def)
    next
      case (Some state)
      then have "fmlookup (peerStates ?sm1) p = Some state" by simp
      with s1 have "sound (?sm1\<lparr>peerStates :=
          fmupd p (state\<lparr>receivedTxs := 0, falsePositives := 0\<rparr>) (peerStates ?sm1)\<rparr>)"
        by (rule sound_touch) simp_all
      with Some True FilterLoaded show ?thesis by (simp add: filterLoaded_def Let_def)
    qed
  qed
next
  case (FilterQuit p)
  have "sound (filterQuit p sm)"
    using assms by (rule sound_frame) (simp_all add: filterQuit_def)
  with FilterQuit show ?thesis by simp
next
  case (PeerHeight p h)
  have "sound (sm\<lparr>Height := (Height sm)(p := h)\<rparr>)"
    using assms by (rule sound_frame) simp_all
  with PeerHeight show ?thesis by simp
next
  case (ChainMoved c)
  have "sound (sm\<lparr>chain := c\<rparr>)"
    using assms by (rule sound_frame) simp_all
  with ChainMoved show ?thesis by simp
next
  case Stop
  have "sound (sm\<lparr>shutdown := shutdown sm + 1\<rparr>)"
    using assms by (rule sound_frame) simp_all
  with Stop show ?thesis by simp
qed






lemma below_limits_peerStates [simp]:
  "below_limits cfg (sm\<lparr>peerStates := ps\<rparr>) = below_limits cfg sm"
  by (simp add: below_limits_def)






lemma updateBloomFilter_below [simp]:
  "below_limits cfg (updateBloomFilter p sm) = below_limits cfg sm"
  by (simp add: updateBloomFilter_def below_limits_def emit_def Let_def)

lemma emit_below [simp]: "below_limits cfg (emit e sm) = below_limits cfg sm"
  by (simp add: below_limits_def emit_def)









section \<open>The properties\<close>

subsection \<open>The size of the global in-flight sets\<close>

text \<open>
  C7. In every state the manager can reach, the global set of requested blocks holds at most
  \<open>maxRequestedBlocks\<close> hashes and the global set of requested transactions at most
  \<open>maxRequestedTxns\<close>.
\<close>

theorem requested_sets_bounded:
  assumes "reachable cfg sm"
  shows "fcard (sm_requestedBlocks sm) \<le> maxRequestedBlocks cfg \<and>
         fcard (sm_requestedTxns sm) \<le> maxRequestedTxns cfg"
proof -
  from assms have "within_limits cfg sm"
  proof (induction rule: reachable.induct)
    case (init c heights services)
    show ?case by (simp add: within_limits_def New_def fcard_fempty)
  next
    case (handle sm \<rho> m)
    then show ?case by (simp add: blockHandler_limits)
  next
    case (outside sm ev)
    then show ?case by (simp add: outside_step_limits)
  qed
  then show ?thesis by (simp add: within_limits_def)
qed

text \<open>
  The bound at work: after the two advertisements of \<open>demo_two_invs\<close> the peer has been
  asked for three blocks, and the global set holds one.
\<close>

theorem requested_sets_bounded_witness:
  "reachable (demo_cfg 1 2) (run (demo_cfg 1 2) demo_two_invs demo_world) \<and>
   sm_requestedBlocks (run (demo_cfg 1 2) demo_two_invs demo_world) = {|10|} \<and>
   fcard (sm_requestedBlocks (run (demo_cfg 1 2) demo_two_invs demo_world))
     \<le> maxRequestedBlocks (demo_cfg 1 2) \<and>
   fcard (sm_requestedTxns (run (demo_cfg 1 2) demo_two_invs demo_world))
     \<le> maxRequestedTxns (demo_cfg 1 2)"
proof -
  have r: "reachable (demo_cfg 1 2) (run (demo_cfg 1 2) demo_two_invs demo_world)"
    by (rule reachable_run [OF reachable_demo]) (simp add: demo_two_invs_def demo_range_ok)
  have e: "sm_requestedBlocks (run (demo_cfg 1 2) demo_two_invs demo_world) = {|10|}"
    by (simp add: demo_two_invs_def demo_simps)
  from requested_sets_bounded [OF r] r e show ?thesis by simp
qed

subsection \<open>The kinds of inventory in a request\<close>



subsection \<open>Orphan blocks during a sync\<close>

text \<open>
  C6. When a block that was requested from the peer has been committed, the chain reports
  it as an orphan and the manager is not current, the peer's \<open>badBlocks\<close> counter is
  incremented (\<open>receivedBlocks\<close> was incremented on receipt) and the peer is disconnected
  if and only if \<open>badBlocks / receivedBlocks\<close>, computed in \<open>float64\<close>, exceeds \<open>0.001\<close>, which
  is the case exactly when \<open>receivedBlocks < 1000 * badBlocks\<close>.
\<close>

theorem orphan_while_syncing:
  assumes "fmlookup (peerStates sm) p = Some state"
    and "BlockHash cfg block |\<in>| requestedBlocks state"
    and "syncPeer sm = Some p \<or> current cfg sm"
    and "err (snd (CommitBlock cfg (chain sm) block)) = Some OrphanBlockError"
    and "\<not> current cfg (sm\<lparr>chain := fst (CommitBlock cfg (chain sm) block)\<rparr>)"
  shows "\<exists>state'.
           fmlookup (peerStates (handleBlockMsg cfg \<rho> p block sm)) p = Some state' \<and>
           badBlocks state' = badBlocks state + 1 \<and>
           receivedBlocks state' = receivedBlocks state + 1 \<and>
           (float64_gt (badBlockRate state') maxBadBlockRate \<longleftrightarrow>
              unat (receivedBlocks state') < 1000 * unat (badBlocks state')) \<and>
           trace (handleBlockMsg cfg \<rho> p block sm) =
             trace sm @ ChainCommitBlock (BlockHash cfg block) #
               (if float64_gt (badBlockRate state') maxBadBlockRate then [Disconnect p] else [])"
proof -
  let ?st = "(block_taken cfg block state)\<lparr>badBlocks := badBlocks (block_taken cfg block state) + 1\<rparr>"
  let ?sm2 = "block_submitted cfg p block state sm"
  have nc: "\<not> current cfg ?sm2" using assms(5) by (simp add: current_block_submitted)
  have h: "handleBlockMsg cfg \<rho> p block sm =
      (if float64_gt (badBlockRate ?st) maxBadBlockRate
       then emit (Disconnect p) (?sm2\<lparr>peerStates := fmupd p ?st (peerStates ?sm2)\<rparr>)
       else ?sm2\<lparr>peerStates := fmupd p ?st (peerStates ?sm2)\<rparr>)"
    unfolding handleBlockMsg_known [OF assms(1)] Let_def
    using assms(2,3,4) nc by auto
  have r: "float64_gt (badBlockRate ?st) maxBadBlockRate \<longleftrightarrow>
           unat (receivedBlocks ?st) < 1000 * unat (badBlocks ?st)"
    unfolding badBlockRate_def maxBadBlockRate_def by (rule rate_exceeds_iff)
  have "fmlookup (peerStates (handleBlockMsg cfg \<rho> p block sm)) p = Some ?st"
    by (simp add: h emit_def)
  moreover have "badBlocks ?st = badBlocks state + 1" "receivedBlocks ?st = receivedBlocks state + 1"
    by (simp_all add: block_taken_def)
  moreover have "trace (handleBlockMsg cfg \<rho> p block sm) =
             trace sm @ ChainCommitBlock (BlockHash cfg block) #
               (if float64_gt (badBlockRate ?st) maxBadBlockRate then [Disconnect p] else [])"
    by (simp add: h emit_def block_submitted_def)
  ultimately show ?thesis using r by blast
qed

text \<open>
  One orphan after 1000 blocks, a rate of 1/1001: no disconnect. One orphan after 10
  blocks, a rate of 1/11: the peer is disconnected.
\<close>

theorem orphan_while_syncing_witness:
  "\<not> current (demo_cfg 1 5) (demo_syncing 1000) \<and>
   trace (handleBlockMsg (demo_cfg 1 5) (demo_range 0 [1]) 1 (7, orphan) (demo_syncing 1000)) =
     [ChainCommitBlock 7] \<and>
   \<not> current (demo_cfg 1 5) (demo_syncing 10) \<and>
   trace (handleBlockMsg (demo_cfg 1 5) (demo_range 0 [1]) 1 (7, orphan) (demo_syncing 10)) =
     [ChainCommitBlock 7, Disconnect 1]"
proof -
  let ?cfg = "demo_cfg 1 5 :: (nat, Uint256 \<times> CommitBlockResult, Uint256 \<times> bool) Config"
  have known: "fmlookup (peerStates (demo_syncing n)) 1 =
      Some \<lparr>syncCandidate = True, requestQueue = [],
            requestedTxns = {||}, requestedBlocks = {|7|},
            receivedBlocks = n, badBlocks = 0,
            receivedTxs = 0, falsePositives = 0\<rparr>" for n
    by (simp add: demo_syncing_def)
  have behind: "\<not> current ?cfg (demo_syncing n)" for n
    by (simp add: current_def demo_cfg_def demo_syncing_def)
  have "trace (handleBlockMsg ?cfg (demo_range 0 [1]) 1 (7, orphan) (demo_syncing n)) =
     ChainCommitBlock 7 # (if unat (n + 1) < 1000 then [Disconnect 1] else [])" for n
    using orphan_while_syncing [of "demo_syncing n" 1 _ ?cfg "(7, orphan)" "demo_range 0 [1]", OF known]
    apply (simp add: demo_cfg_def orphan_def current_def)
    apply (simp add: demo_syncing_def)
    apply auto
    done
  from this [of 1000] this [of 10] behind [of 1000] behind [of 10]
  show ?thesis by simp
qed

subsection \<open>The false positive rate of a peer\<close>

text \<open>
  C9. \<open>handleTxMsg\<close> never writes \<open>receivedTxs\<close>, which is therefore zero for every peer
  in every state the manager can reach, and \<open>falsePosRate\<close> divides by it without a guard.
  So whenever a requested transaction is a false positive (and the increment of
  \<open>falsePositives\<close> leaves it at least 1), the rate is \<open>+Inf\<close>, the comparison with
  \<open>maxFalsePositiveRate\<close> succeeds and \<open>updateBloomFilter\<close> is called on the peer: the
  filter message is queued and a goroutine waits for it.
\<close>

theorem false_positive_always_reloads:
  assumes "reachable cfg sm"
    and "fmlookup (peerStates sm) p = Some state"
    and "TxHash cfg tx |\<in>| requestedTxns state"
    and "fst (snd (CommitTx cfg (chain sm) tx))"
    and "falsePositives state + 1 \<noteq> 0"
  shows "receivedTxs state = 0 \<and>
         (\<exists>state'.
            fmlookup (peerStates (handleTxMsg cfg p tx sm)) p = Some state' \<and>
            receivedTxs state' = 0 \<and>
            falsePositives state' = falsePositives state + 1 \<and>
            falsePosRate state' = PosInf \<and>
            float64_gt (falsePosRate state') maxFalsePositiveRate) \<and>
         (\<forall>q st. fmlookup (peerStates (handleTxMsg cfg p tx sm)) q = Some st \<longrightarrow>
            (\<exists>st0. fmlookup (peerStates sm) q = Some st0 \<and> receivedTxs st = receivedTxs st0)) \<and>
         trace (handleTxMsg cfg p tx sm) =
           trace sm @ [ChainCommitTx (TxHash cfg tx), QueueMessage p FilterLoad] \<and>
         filterWaiters (handleTxMsg cfg p tx sm) = filterWaiters sm @ [p]"
proof -
  from assms(1,2) have z: "receivedTxs state = 0"
    using reachable_untallied by (auto simp: untallied_def)
  let ?st = "(tx_taken cfg tx state)\<lparr>falsePositives := falsePositives (tx_taken cfg tx state) + 1\<rparr>"
  let ?sm3 = "tx_submitted cfg p tx state sm"
  have rate: "falsePosRate ?st = PosInf"
    using z assms(5) by (simp add: falsePosRate_def rate_over_zero tx_taken_def)
  then have gt: "float64_gt (falsePosRate ?st) maxFalsePositiveRate"
    by (simp add: maxFalsePositiveRate_def)
  have h: "handleTxMsg cfg p tx sm =
      updateBloomFilter p (?sm3\<lparr>peerStates := fmupd p ?st (peerStates ?sm3)\<rparr>)"
    unfolding handleTxMsg_known [OF assms(2)] Let_def
    using assms(3,4) gt by simp
  have "fmlookup (peerStates (handleTxMsg cfg p tx sm)) p = Some ?st"
    by (simp add: h updateBloomFilter_def emit_def Let_def)
  moreover have "receivedTxs ?st = 0" "falsePositives ?st = falsePositives state + 1"
    using z by (simp_all add: tx_taken_def)
  moreover have "trace (handleTxMsg cfg p tx sm) =
           trace sm @ [ChainCommitTx (TxHash cfg tx), QueueMessage p FilterLoad]"
    by (simp add: h updateBloomFilter_def emit_def Let_def tx_submitted_def)
  moreover have "filterWaiters (handleTxMsg cfg p tx sm) = filterWaiters sm @ [p]"
    by (simp add: h updateBloomFilter_def emit_def Let_def tx_submitted_def)
  moreover have "\<exists>st0. fmlookup (peerStates sm) q = Some st0 \<and> receivedTxs st = receivedTxs st0"
    if "fmlookup (peerStates (handleTxMsg cfg p tx sm)) q = Some st" for q st
    using that assms(2)
    by (cases "q = p")
       (auto simp add: h updateBloomFilter_def emit_def Let_def tx_submitted_def tx_taken_def)
  ultimately show ?thesis using z rate gt by blast
qed

text \<open>The first transaction a peer delivers, a false positive, already reloads the filter.\<close>

theorem false_positive_always_reloads_witness:
  "reachable (demo_cfg 1 5) (run (demo_cfg 1 5) demo_tx_asked demo_world) \<and>
   trace (handleTxMsg (demo_cfg 1 5) 1 (8, True) (run (demo_cfg 1 5) demo_tx_asked demo_world)) =
     [PushGetBlocksMsg 1 [] 0, QueueMessage 1 (GetData [\<lparr>Type = InvTypeTx, Hash = 8\<rparr>]),
      ChainCommitTx 8, QueueMessage 1 FilterLoad]"
proof -
  let ?cfg = "demo_cfg 1 5 :: (nat, Uint256 \<times> CommitBlockResult, Uint256 \<times> bool) Config"
  let ?sm = "run ?cfg demo_tx_asked demo_world"
  have r: "reachable ?cfg ?sm"
    by (rule reachable_run [OF reachable_demo]) (simp add: demo_tx_asked_def demo_range_ok)
  have known: "fmlookup (peerStates ?sm) 1 =
      Some \<lparr>syncCandidate = True, requestQueue = [], requestedTxns = {|8|},
               requestedBlocks = {||}, receivedBlocks = 0, badBlocks = 0,
               receivedTxs = 0, falsePositives = 0\<rparr>"
    by (simp add: demo_tx_asked_run)
  have "trace (handleTxMsg ?cfg 1 (8, True) ?sm) =
          trace ?sm @ [ChainCommitTx (TxHash ?cfg (8, True)), QueueMessage 1 FilterLoad]"
    using false_positive_always_reloads [OF r known, of "(8, True)"]
    by (simp add: demo_cfg_def)
  then have "trace (handleTxMsg ?cfg 1 (8, True) ?sm) =
     [PushGetBlocksMsg 1 [] 0, QueueMessage 1 (GetData [\<lparr>Type = InvTypeTx, Hash = 8\<rparr>]),
      ChainCommitTx 8, QueueMessage 1 FilterLoad]"
    by (simp add: demo_tx_asked_run) (simp add: demo_cfg_def)
  with r show ?thesis by simp
qed

text \<open>
  C3. The claim is that a transaction that passes the provenance check increments
  \<open>receivedTxs\<close>, so that the rate is \<open>f / n\<close>. In the code it does not: after the one
  transaction that peer 1 was asked for, false positive or not, \<open>receivedTxs\<close> is still 0,
  and with one false positive out of one transaction the rate is \<open>+Inf\<close>, not 1.
\<close>

theorem received_txs_never_counted:
  "8 |\<in>| requestedTxns (the (fmlookup (peerStates (run (demo_cfg 1 5) demo_tx_asked demo_world)) 1)) \<and>
   receivedTxs (the (fmlookup (peerStates
       (handleTxMsg (demo_cfg 1 5) 1 (8, True) (run (demo_cfg 1 5) demo_tx_asked demo_world))) 1)) = 0 \<and>
   falsePositives (the (fmlookup (peerStates
       (handleTxMsg (demo_cfg 1 5) 1 (8, True) (run (demo_cfg 1 5) demo_tx_asked demo_world))) 1)) = 1 \<and>
   falsePosRate (the (fmlookup (peerStates
       (handleTxMsg (demo_cfg 1 5) 1 (8, True) (run (demo_cfg 1 5) demo_tx_asked demo_world))) 1)) = PosInf \<and>
   receivedTxs (the (fmlookup (peerStates
       (handleTxMsg (demo_cfg 1 5) 1 (8, False) (run (demo_cfg 1 5) demo_tx_asked demo_world))) 1)) = 0"
  unfolding demo_tx_asked_run
  by (simp add: handleTxMsg_def demo_cfg_def emit_def updateBloomFilter_def Let_def
      falsePosRate_def rate_over_zero maxFalsePositiveRate_def)

subsection \<open>Messages from peers the manager does not know\<close>

text \<open>
  C2, as the code has it. An \<open>Inv\<close> or a \<open>Tx\<close> message for a peer without an entry in
  \<open>peerStates\<close> is dropped: the manager is left as it was and nothing is called on the
  peer. A \<open>Block\<close> message for such a peer leaves the manager's own state as it was as
  well, but \<open>handleBlockMsg\<close> calls \<open>Disconnect\<close> on the peer, unless the manager is not
  current and the peer is not the sync peer (then the block is dropped before the lookup).
\<close>

theorem unknown_peer_messages:
  assumes "fmlookup (peerStates sm) p = None"
  shows "handleInvMsg cfg \<rho> p invVects sm = sm \<and>
         handleTxMsg cfg p tx sm = sm \<and>
         handleBlockMsg cfg \<rho> p block sm =
           (if syncPeer sm \<noteq> Some p \<and> \<not> current cfg sm then sm
            else sm\<lparr>trace := trace sm @ [Disconnect p]\<rparr>)"
  using assms by (simp add: handleInvMsg_def handleTxMsg_def handleBlockMsg_def emit_def)

theorem unknown_peer_messages_witness:
  "fmlookup (peerStates demo_world) 1 = None \<and>
   handleInvMsg (demo_cfg 1 5) (demo_range 0 []) 1 [block_vect 7] demo_world = demo_world \<and>
   handleTxMsg (demo_cfg 1 5) 1 (8, False) demo_world = demo_world \<and>
   handleBlockMsg (demo_cfg 1 5) (demo_range 0 []) 1 (7, orphan) demo_world =
     demo_world\<lparr>trace := [Disconnect 1]\<rparr>"
proof -
  have u: "fmlookup (peerStates demo_world) 1 = None" by (simp add: demo_world_def New_def)
  have c: "current (demo_cfg 1 5) demo_world" by (simp add: current_def demo_world_def New_def)
  have t: "trace demo_world = []" by (simp add: demo_world_def New_def)
  from unknown_peer_messages [OF u, of "demo_cfg 1 5" "demo_range 0 []" "[block_vect 7]" "(8, False)" "(7, orphan)"]
    u c t show ?thesis by simp
qed

text \<open>
  The claim as stated, that no message for an unknown peer disconnects it, fails for a
  block: a fresh manager, which is current, disconnects the unknown peer 1.
\<close>

theorem unknown_peer_block_disconnects:
  "fmlookup (peerStates demo_world) 1 = None \<and>
   trace (blockHandler (demo_cfg 1 5) (demo_range 0 []) (BlockMsg 1 (7, orphan)) demo_world) =
     [Disconnect 1]"
  by (simp add: demo_world_def New_def handleBlockMsg_def current_def emit_def)

subsection \<open>Blocks that were not requested\<close>

text \<open>
  C5, as the code has it. A \<open>Block\<close> message from a known peer whose hash is not in the
  peer's \<open>requestedBlocks\<close>: if the peer is the sync peer or the manager is current, the
  manager calls \<open>Disconnect\<close> on the peer and does nothing else; if the manager is not
  current and the peer is not the sync peer, the block is dropped before the check and the
  peer is not disconnected. In both cases the chain is not called, and the chain, the peer
  states and the global request sets stay as they were.
\<close>

theorem unrequested_block:
  assumes "fmlookup (peerStates sm) p = Some state"
    and "BlockHash cfg block |\<notin>| requestedBlocks state"
  shows "(syncPeer sm = Some p \<or> current cfg sm \<longrightarrow>
            handleBlockMsg cfg \<rho> p block sm = sm\<lparr>trace := trace sm @ [Disconnect p]\<rparr>) \<and>
         (syncPeer sm \<noteq> Some p \<and> \<not> current cfg sm \<longrightarrow>
            handleBlockMsg cfg \<rho> p block sm = sm) \<and>
         chain (handleBlockMsg cfg \<rho> p block sm) = chain sm \<and>
         peerStates (handleBlockMsg cfg \<rho> p block sm) = peerStates sm \<and>
         sm_requestedBlocks (handleBlockMsg cfg \<rho> p block sm) = sm_requestedBlocks sm \<and>
         sm_requestedTxns (handleBlockMsg cfg \<rho> p block sm) = sm_requestedTxns sm \<and>
         (\<forall>h. ChainCommitBlock h \<notin> set (drop (length (trace sm)) (trace (handleBlockMsg cfg \<rho> p block sm))))"
  using assms by (simp add: handleBlockMsg_def emit_def)

text \<open>
  In \<open>demo_behind\<close> the manager syncs from peer 1 and is not current: an unrequested block
  from peer 1 disconnects it, the same block from peer 2 changes nothing.
\<close>

theorem unrequested_block_witness:
  "syncPeer demo_behind = Some 1 \<and> \<not> current (demo_cfg 1 5) demo_behind \<and>
   7 |\<notin>| requestedBlocks (the (fmlookup (peerStates demo_behind) 1)) \<and>
   handleBlockMsg (demo_cfg 1 5) (demo_range 0 [1, 2]) 1 (7, orphan) demo_behind =
     demo_behind\<lparr>trace := [PushGetBlocksMsg 1 [] 0, Disconnect 1]\<rparr> \<and>
   handleBlockMsg (demo_cfg 1 5) (demo_range 0 [1, 2]) 2 (7, orphan) demo_behind = demo_behind"
proof -
  let ?cfg = "demo_cfg 1 5 :: (nat, Uint256 \<times> CommitBlockResult, Uint256 \<times> bool) Config"
  let ?st = "\<lparr>syncCandidate = True, requestQueue = [], requestedTxns = {||},
               requestedBlocks = {||}, receivedBlocks = 0, badBlocks = 0,
               receivedTxs = 0, falsePositives = 0\<rparr>"
  have k1: "fmlookup (peerStates demo_behind) 1 = Some ?st"
    and k2: "fmlookup (peerStates demo_behind) 2 = Some ?st"
    by (simp_all add: demo_behind_eq)
  have s: "syncPeer demo_behind = Some 1" by (simp add: demo_behind_eq)
  have b: "\<not> current ?cfg demo_behind" by (simp add: demo_behind_eq current_def demo_cfg_def)
  have t: "trace demo_behind = [PushGetBlocksMsg 1 [] 0]" by (simp add: demo_behind_eq)
  have n: "BlockHash ?cfg (7, orphan) |\<notin>| requestedBlocks ?st" by (simp add: demo_cfg_def)
  from unrequested_block [OF k1 n, of "demo_range 0 [1, 2]"]
       unrequested_block [OF k2 n, of "demo_range 0 [1, 2]"] k1 s b t
  show ?thesis by simp
qed

text \<open>
  The claim as stated, that every unrequested block from a known peer disconnects it,
  fails for peer 2 there.
\<close>

theorem unrequested_block_dropped:
  "fmlookup (peerStates demo_behind) 2 \<noteq> None \<and>
   7 |\<notin>| requestedBlocks (the (fmlookup (peerStates demo_behind) 2)) \<and>
   blockHandler (demo_cfg 1 5) (demo_range 0 [1, 2]) (BlockMsg 2 (7, orphan)) demo_behind = demo_behind \<and>
   Disconnect 2 \<notin> set (trace (blockHandler (demo_cfg 1 5) (demo_range 0 [1, 2]) (BlockMsg 2 (7, orphan)) demo_behind))"
  by (simp add: demo_behind_eq handleBlockMsg_def current_def demo_cfg_def)

subsection \<open>The count of sync candidates\<close>

text \<open>
  C10. The shortcut at the head of \<open>startSync\<close> counts the peers whose \<open>syncCandidate\<close> flag
  is set on entry, and the loop below it clears the flag of those that are behind the
  chain. So there are states in which \<open>GetBlocks\<close> is sent although fewer than
  \<open>MinPeersForSync\<close> candidates are left: with a minimum of two, \<open>demo_stale\<close> has the two
  candidates 2 and 1, of which peer 2 is behind the chain; \<open>startSync\<close> sends \<open>GetBlocks\<close> to
  peer 1 and leaves peer 1 as the only candidate. The manager reaches this by registering
  peer 2, then peer 1.
\<close>

theorem min_peers_counts_stale_candidates:
  "MinPeersForSync (demo_cfg 2 5) = 2 \<and>
   getSyncCandidates (demo_range 0 [2, 1]) demo_stale = [2, 1] \<and>
   Height demo_stale 2 < BestHeight (demo_cfg 2 5) (chain demo_stale) \<and>
   trace (startSync (demo_cfg 2 5) (demo_range 0 [2, 1]) demo_stale) = [PushGetBlocksMsg 1 [] 0] \<and>
   getSyncCandidates (demo_range 0 [2, 1]) (startSync (demo_cfg 2 5) (demo_range 0 [2, 1]) demo_stale) = [1] \<and>
   int (length (getSyncCandidates (demo_range 0 [2, 1])
          (startSync (demo_cfg 2 5) (demo_range 0 [2, 1]) demo_stale))) < MinPeersForSync (demo_cfg 2 5) \<and>
   run (demo_cfg 2 5) demo_stale_events (New 3 demo_heights (\<lambda>p. 5)) =
     startSync (demo_cfg 2 5) (demo_range 0 [2, 1]) demo_stale"
  by (simp add: demo_stale_def demo_stale_events_def demo_heights_def fresh_peer_def demo_simps
      finsert_commute)

subsection \<open>Insertion into a global set and its limit\<close>




subsection \<open>The peers' sets and the global sets\<close>

text \<open>
  C1, as the code has it. The inclusion of every registered peer's \<open>requestedBlocks\<close> and
  \<open>requestedTxns\<close> in the global sets is kept by every message that is \<open>calm\<close>, that is,
  during which \<open>limitMap\<close> does not evict and the global set of requested blocks is not
  reset, when it is handled in a state in which the inclusion holds and no hash is in
  the sets of two peers (which is kept as well). It is not a property of every reachable
  state: \<open>syncWith\<close>, and the orphan and reorganisation branches of \<open>handleBlockMsg\<close>, empty
  the global set while other peers keep their requests, and \<open>limitMap\<close> deletes from the
  global set only.
\<close>

theorem inclusion_kept_when_calm:
  assumes "inclusion sm" and "exclusive sm" and "calm cfg m sm"
  shows "inclusion (blockHandler cfg \<rho> m sm) \<and> exclusive (blockHandler cfg \<rho> m sm)"
proof -
  from assms(1,2) have "sound sm" by (simp add: sound_def)
  then have "sound (blockHandler cfg \<rho> m sm)" using assms(3) by (rule blockHandler_sound)
  then show ?thesis by (simp add: sound_def)
qed

text \<open>A calm message: peer 1, which has been asked for transaction 8, advertises block 7.\<close>

theorem inclusion_kept_when_calm_witness:
  "inclusion (run (demo_cfg 1 5) demo_tx_asked demo_world) \<and>
   exclusive (run (demo_cfg 1 5) demo_tx_asked demo_world) \<and>
   calm (demo_cfg 1 5) (InvMsg 1 [block_vect 7]) (run (demo_cfg 1 5) demo_tx_asked demo_world) \<and>
   inclusion (blockHandler (demo_cfg 1 5) (demo_range 0 [1]) (InvMsg 1 [block_vect 7])
     (run (demo_cfg 1 5) demo_tx_asked demo_world)) \<and>
   sm_requestedBlocks (blockHandler (demo_cfg 1 5) (demo_range 0 [1]) (InvMsg 1 [block_vect 7])
     (run (demo_cfg 1 5) demo_tx_asked demo_world)) = {|7|}"
proof -
  let ?cfg = "demo_cfg 1 5 :: (nat, Uint256 \<times> CommitBlockResult, Uint256 \<times> bool) Config"
  let ?sm = "run ?cfg demo_tx_asked demo_world"
  have i: "inclusion ?sm"
    unfolding demo_tx_asked_run inclusion_def by (auto split: if_splits)
  have e: "exclusive ?sm"
    unfolding demo_tx_asked_run exclusive_def by (auto split: if_splits)
  have c: "calm ?cfg (InvMsg 1 [block_vect 7]) ?sm"
    unfolding demo_tx_asked_run
    by (simp add: room_def demo_cfg_def maxRequestedBlocks_def maxRequestedTxns_def
        fcard_finsert_if fcard_fempty)
  have v: "sm_requestedBlocks (blockHandler ?cfg (demo_range 0 [1]) (InvMsg 1 [block_vect 7]) ?sm) = {|7|}"
    unfolding demo_tx_asked_run by (simp add: demo_simps)
  from inclusion_kept_when_calm [OF i e c, of "demo_range 0 [1]"] i e c v
  show ?thesis by simp
qed

text \<open>
  The claim as stated fails in two reachable states. After \<open>demo_resync\<close>, \<open>syncWith\<close> has
  emptied the global set while peer 2 is still waiting for block 7. After \<open>demo_two_invs\<close>,
  \<open>limitMap\<close> has evicted block 7 from the global set and peer 1 still has it.
\<close>

theorem inclusion_broken_by_reset_and_eviction:
  "reachable (demo_cfg 1 5) (run (demo_cfg 1 5) demo_resync demo_world) \<and>
   7 |\<in>| requestedBlocks (the (fmlookup (peerStates (run (demo_cfg 1 5) demo_resync demo_world)) 2)) \<and>
   7 |\<notin>| sm_requestedBlocks (run (demo_cfg 1 5) demo_resync demo_world) \<and>
   reachable (demo_cfg 1 2) (run (demo_cfg 1 2) demo_two_invs demo_world) \<and>
   7 |\<in>| requestedBlocks (the (fmlookup (peerStates (run (demo_cfg 1 2) demo_two_invs demo_world)) 1)) \<and>
   7 |\<notin>| sm_requestedBlocks (run (demo_cfg 1 2) demo_two_invs demo_world)"
proof -
  have r1: "reachable (demo_cfg 1 5) (run (demo_cfg 1 5) demo_resync demo_world)"
    by (rule reachable_run [OF reachable_demo]) (simp add: demo_resync_def demo_range_ok)
  have r2: "reachable (demo_cfg 1 2) (run (demo_cfg 1 2) demo_two_invs demo_world)"
    by (rule reachable_run [OF reachable_demo]) (simp add: demo_two_invs_def demo_range_ok)
  have "7 |\<in>| requestedBlocks (the (fmlookup (peerStates (run (demo_cfg 1 5) demo_resync demo_world)) 2)) \<and>
        7 |\<notin>| sm_requestedBlocks (run (demo_cfg 1 5) demo_resync demo_world)"
    by (simp add: demo_resync_def demo_simps finsert_commute)
  moreover have "7 |\<in>| requestedBlocks (the (fmlookup (peerStates (run (demo_cfg 1 2) demo_two_invs demo_world)) 1)) \<and>
        7 |\<notin>| sm_requestedBlocks (run (demo_cfg 1 2) demo_two_invs demo_world)"
    by (simp add: demo_two_invs_def demo_simps)
  ultimately show ?thesis using r1 r2 by blast
qed

end
